theory Spec2Isabelle
  imports Complex_Main
begin

section \<open>Solar Energy Tracker: entry store, week window, statistics, chart average\<close>

text \<open>
  A shallow embedding of \<^verbatim>\<open>src/components/weekly-summary.tsx\<close> (the tracker component
  \<^verbatim>\<open>SolarTracker\<close>) and \<^verbatim>\<open>src/components/solar-chart.tsx\<close>.

  Conventions of the embedding.
  \<^item> A JavaScript \<^verbatim>\<open>number\<close> holding a production value is a \<open>real\<close>; the one
    non-finite value the code can produce, \<^verbatim>\<open>Math.max()\<close> of no arguments, is written
    out as \<open>None\<close>.
  \<^item> A JavaScript \<^verbatim>\<open>Date\<close> is its time value, an integer of milliseconds since
    1970-01-01T00:00Z within \<open>\<plusminus>8.64e15\<close>, or the Invalid Date. The local time zone is a
    parameter \<open>tza\<close>, the \<^verbatim>\<open>LocalTZA(t, isUTC)\<close> of ECMAScript; the methods of
    \<^verbatim>\<open>Date\<close> and the functions of date-fns are written out over it.
  \<^item> \<^verbatim>\<open>crypto.randomUUID()\<close> is a supply \<open>uuid :: nat \<Rightarrow> string\<close> with a counter of the
    calls made so far, threaded through every function that draws identifiers.
  \<^item> An exception is a value \<open>Inl e\<close>; every \<^verbatim>\<open>try/catch\<close> of the source is a case
    distinction on it.
\<close>

subsection \<open>Exceptions\<close>

datatype js_error = RangeError | TypeError | SyntaxError | SecurityError

subsection \<open>Time values, their range and the local time zone\<close>

definition msPerDay :: int where
  "msPerDay = 86400000"

definition maxTime :: int where
  "maxTime = 8640000000000000"

datatype js_date = TimeValue int | InvalidDate

text \<open>\<^verbatim>\<open>TimeClip\<close>: a time value beyond the range becomes \<^verbatim>\<open>NaN\<close>.\<close>

definition TimeClip :: "int \<Rightarrow> js_date" where
  "TimeClip v = (if \<bar>v\<bar> > maxTime then InvalidDate else TimeValue v)"

definition Day :: "int \<Rightarrow> int" where
  "Day t = t div msPerDay"

definition TimeWithinDay :: "int \<Rightarrow> int" where
  "TimeWithinDay t = t mod msPerDay"

text \<open>
  \<^verbatim>\<open>LocalTZA(t, isUTC)\<close>: the offset of local time, in milliseconds, where \<open>t\<close> is a UTC
  time (\<open>isUTC\<close>) or a local time (\<open>\<not> isUTC\<close>; a local time that a transition skips or repeats
  is read with the offset before the transition).
\<close>

type_synonym time_zone = "int \<Rightarrow> bool \<Rightarrow> int"

definition LocalTime :: "time_zone \<Rightarrow> int \<Rightarrow> int" where
  "LocalTime tza t = t + tza t True"

definition UTC :: "time_zone \<Rightarrow> int \<Rightarrow> int" where
  "UTC tza t = t - tza t False"

subsection \<open>Calendar days (ECMAScript time-value functions, in days)\<close>

text \<open>
  The functions of ECMAScript that read a year, a month and a date off a time value depend on
  its day number \<open>Day t\<close> alone; they are written over day numbers \<open>n\<close>.
\<close>

definition DaysInYear :: "int \<Rightarrow> int" where
  "DaysInYear y =
     (if y mod 4 \<noteq> 0 then 365
      else if y mod 100 \<noteq> 0 then 366
      else if y mod 400 \<noteq> 0 then 365
      else 366)"

definition DayFromYear :: "int \<Rightarrow> int" where
  "DayFromYear y =
     365 * (y - 1970) + (y - 1969) div 4 - (y - 1901) div 100 + (y - 1601) div 400"

text \<open>
  \<^verbatim>\<open>YearFromTime\<close>: the largest \<open>y\<close> with \<open>DayFromYear y \<le> n\<close>. The mean Gregorian year
  has 146097 / 400 days, which gives an estimate that is off by at most one
  (lemma \<open>YearFromTime_bounds\<close> below).
\<close>

definition YearFromTime :: "int \<Rightarrow> int" where
  "YearFromTime n =
     (let y = 1970 + (400 * n) div 146097
      in if DayFromYear (y + 1) \<le> n then y + 1
         else if DayFromYear y \<le> n then y
         else y - 1)"

definition InLeapYear :: "int \<Rightarrow> int" where
  "InLeapYear n = (if DaysInYear (YearFromTime n) = 366 then 1 else 0)"

definition DayWithinYear :: "int \<Rightarrow> int" where
  "DayWithinYear n = n - DayFromYear (YearFromTime n)"

text \<open>
  \<^verbatim>\<open>MonthFromTime\<close> (0 is January) and \<^verbatim>\<open>DateFromTime\<close>: the two tables of
  ECMAScript, over the day within the year \<open>d\<close> and the leap-year flag \<open>l\<close>.
\<close>

definition monthTable :: "int \<Rightarrow> int \<Rightarrow> int" where
  "monthTable d l =
     (if d < 31 then 0
      else if d < 59 + l then 1
      else if d < 90 + l then 2
      else if d < 120 + l then 3
      else if d < 151 + l then 4
      else if d < 181 + l then 5
      else if d < 212 + l then 6
      else if d < 243 + l then 7
      else if d < 273 + l then 8
      else if d < 304 + l then 9
      else if d < 334 + l then 10
      else 11)"

definition MonthFromTime :: "int \<Rightarrow> int" where
  "MonthFromTime n = monthTable (DayWithinYear n) (InLeapYear n)"

definition dateTable :: "int \<Rightarrow> int \<Rightarrow> int \<Rightarrow> int" where
  "dateTable m d l =
     (if m = 0 then d + 1
      else if m = 1 then d - 30
      else if m = 2 then d - 58 - l
      else if m = 3 then d - 89 - l
      else if m = 4 then d - 119 - l
      else if m = 5 then d - 150 - l
      else if m = 6 then d - 180 - l
      else if m = 7 then d - 211 - l
      else if m = 8 then d - 242 - l
      else if m = 9 then d - 272 - l
      else if m = 10 then d - 303 - l
      else d - 333 - l)"

definition DateFromTime :: "int \<Rightarrow> int" where
  "DateFromTime n = dateTable (MonthFromTime n) (DayWithinYear n) (InLeapYear n)"

text \<open>\<^verbatim>\<open>WeekDay\<close>: 0 is Sunday; 1970-01-01 was a Thursday.\<close>

definition WeekDay :: "int \<Rightarrow> int" where
  "WeekDay n = (n + 4) mod 7"

text \<open>
  \<^verbatim>\<open>MakeDay(year, month, date)\<close>: the day number of the first of the month, plus
  \<open>date - 1\<close>; the month may lie outside 0..11 and carries into the year. \<open>monthStart\<close> is the
  day within the year on which a month starts. The day number is computed by arithmetic, as
  the engines do; the range of the result is checked by \<^verbatim>\<open>TimeClip\<close>.
\<close>

definition monthStart :: "int \<Rightarrow> int \<Rightarrow> int" where
  "monthStart m l =
     (if m = 0 then 0
      else if m = 1 then 31
      else if m = 2 then 59 + l
      else if m = 3 then 90 + l
      else if m = 4 then 120 + l
      else if m = 5 then 151 + l
      else if m = 6 then 181 + l
      else if m = 7 then 212 + l
      else if m = 8 then 243 + l
      else if m = 9 then 273 + l
      else if m = 10 then 304 + l
      else 334 + l)"

definition MakeDay :: "int \<Rightarrow> int \<Rightarrow> int \<Rightarrow> int" where
  "MakeDay year month dt =
     (let ym = year + month div 12;
          mn = month mod 12
      in DayFromYear ym + monthStart mn (if DaysInYear ym = 366 then 1 else 0) + dt - 1)"

definition MakeDate :: "int \<Rightarrow> int \<Rightarrow> int" where
  "MakeDate day time = day * msPerDay + time"

subsection \<open>The methods of \<^verbatim>\<open>Date\<close> that date-fns calls\<close>

text \<open>\<^verbatim>\<open>getDay()\<close> and \<^verbatim>\<open>getDate()\<close> of a valid date read the local time.\<close>

definition getDay :: "time_zone \<Rightarrow> int \<Rightarrow> int" where
  "getDay tza t = WeekDay (Day (LocalTime tza t))"

definition getDate :: "time_zone \<Rightarrow> int \<Rightarrow> int" where
  "getDate tza t = DateFromTime (Day (LocalTime tza t))"

text \<open>
  \<^verbatim>\<open>setDate(dt)\<close>: the local time is rebuilt with the new day of the month and the old
  time of day, converted to UTC and clipped. On the Invalid Date nothing changes.
\<close>

fun setDate :: "time_zone \<Rightarrow> js_date \<Rightarrow> int \<Rightarrow> js_date" where
  "setDate tza (TimeValue t) dt =
     (let tl = LocalTime tza t;
          newDate = MakeDate (MakeDay (YearFromTime (Day tl)) (MonthFromTime (Day tl)) dt)
                      (TimeWithinDay tl)
      in TimeClip (UTC tza newDate))"
| "setDate tza InvalidDate dt = InvalidDate"

text \<open>\<^verbatim>\<open>setHours(0, 0, 0, 0)\<close>: local midnight of the local day.\<close>

fun setHours0 :: "time_zone \<Rightarrow> js_date \<Rightarrow> js_date" where
  "setHours0 tza (TimeValue t) = TimeClip (UTC tza (MakeDate (Day (LocalTime tza t)) 0))"
| "setHours0 tza InvalidDate = InvalidDate"

subsection \<open>date-fns: \<^verbatim>\<open>isValid\<close>, \<^verbatim>\<open>startOfWeek\<close>, \<^verbatim>\<open>addDays\<close>, \<^verbatim>\<open>format\<close>\<close>

fun isValid :: "js_date \<Rightarrow> bool" where
  "isValid (TimeValue t) = True"
| "isValid InvalidDate = False"

definition weekStartsOn :: int where
  "weekStartsOn = 0"

text \<open>
  \<^verbatim>\<open>
  const day = date.getDay()
  const diff = (day < weekStartsOn ? 7 : 0) + day - weekStartsOn
  date.setDate(date.getDate() - diff); date.setHours(0, 0, 0, 0)
  \<close>
  On the Invalid Date every step yields \<^verbatim>\<open>NaN\<close>.
\<close>

fun startOfWeek :: "time_zone \<Rightarrow> js_date \<Rightarrow> js_date" where
  "startOfWeek tza (TimeValue t) =
     (let day = getDay tza t;
          diff = (if day < weekStartsOn then 7 else 0) + day - weekStartsOn
      in setHours0 tza (setDate tza (TimeValue t) (getDate tza t - diff)))"
| "startOfWeek tza InvalidDate = InvalidDate"

text \<open>
  \<^verbatim>\<open>
  if (!amount) return date
  date.setDate(date.getDate() + amount)
  \<close>
\<close>

fun addDays :: "time_zone \<Rightarrow> js_date \<Rightarrow> int \<Rightarrow> js_date" where
  "addDays tza (TimeValue t) amount =
     (if amount = 0 then TimeValue t
      else setDate tza (TimeValue t) (getDate tza t + amount))"
| "addDays tza InvalidDate amount = InvalidDate"

definition digit :: "nat \<Rightarrow> char" where
  "digit k = ''0123456789'' ! k"

fun toString :: "nat \<Rightarrow> string" where
  "toString k = (if k < 10 then [digit k] else toString (k div 10) @ [digit (k mod 10)])"

text \<open>\<^verbatim>\<open>addLeadingZeros(number, targetLength)\<close> on a non-negative number.\<close>

definition addLeadingZeros :: "nat \<Rightarrow> nat \<Rightarrow> string" where
  "addLeadingZeros k targetLength =
     replicate (targetLength - length (toString k)) (CHR ''0'') @ toString k"

text \<open>
  The three formatters of the pattern \<^verbatim>\<open>"yyyy-MM-dd"\<close>. The year printed is the year of the
  era: \<^verbatim>\<open>signedYear > 0 ? signedYear : 1 - signedYear\<close>.
\<close>

definition yyyy :: "int \<Rightarrow> string" where
  "yyyy signedYear =
     addLeadingZeros (nat (if signedYear > 0 then signedYear else 1 - signedYear)) 4"

definition MM :: "int \<Rightarrow> string" where
  "MM month = addLeadingZeros (nat (month + 1)) 2"

definition dd :: "int \<Rightarrow> string" where
  "dd dayOfMonth = addLeadingZeros (nat dayOfMonth) 2"

text \<open>The pattern applied to the local year, month and day of the month.\<close>

fun isoString :: "int \<times> int \<times> int \<Rightarrow> string" where
  "isoString (y, m, d) = yyyy y @ ''-'' @ MM m @ ''-'' @ dd d"

definition calendarDate :: "int \<Rightarrow> int \<times> int \<times> int" where
  "calendarDate n = (YearFromTime n, MonthFromTime n, DateFromTime n)"

definition isoDate :: "int \<Rightarrow> string" where
  "isoDate n = isoString (calendarDate n)"

text \<open>
  The Gregorian calendar, stated on its own for comparison: the length of a month (0 is
  January) and the date that follows a date.
\<close>

definition DaysInMonth :: "int \<Rightarrow> int \<Rightarrow> int" where
  "DaysInMonth y m =
     (if m = 1 then (if DaysInYear y = 366 then 29 else 28)
      else if m = 3 \<or> m = 5 \<or> m = 8 \<or> m = 10 then 30
      else 31)"

fun nextDate :: "int \<times> int \<times> int \<Rightarrow> int \<times> int \<times> int" where
  "nextDate (y, m, d) =
     (if d < DaysInMonth y m then (y, m, d + 1)
      else if m < 11 then (y, m + 1, 1)
      else (y + 1, 0, 1))"

text \<open>
  \<^verbatim>\<open>format(date, "yyyy-MM-dd")\<close> prints the local calendar date of a valid date; on the
  Invalid Date it throws a RangeError.
\<close>

fun format_yyyy_MM_dd :: "time_zone \<Rightarrow> js_date \<Rightarrow> js_error + string" where
  "format_yyyy_MM_dd tza (TimeValue t) = Inr (isoDate (Day (LocalTime tza t)))"
| "format_yyyy_MM_dd tza InvalidDate = Inl RangeError"

text \<open>
  \<^verbatim>\<open>handleDateChange\<close>, the only writer of the selected date: an undefined or invalid
  date is refused and the selection stays as it is. The selection starts as \<^verbatim>\<open>new Date()\<close>,
  a valid date.
\<close>

definition handleDateChange :: "js_date option \<Rightarrow> js_date option \<Rightarrow> js_date option" where
  "handleDateChange newDate selected =
     (case newDate of
        None \<Rightarrow> selected
      | Some d \<Rightarrow> if isValid d then Some d else selected)"

subsection \<open>Entries and the identifier supply\<close>

text \<open>\<^verbatim>\<open>interface SolarEntry { date: string; production: number; id: string }\<close>\<close>

record SolarEntry =
  date :: string
  production :: real
  entry_id :: string

text \<open>
  \<^verbatim>\<open>crypto.randomUUID()\<close>: the \<open>k\<close>-th call returns \<open>uuid k\<close>; the result carries the
  advanced counter.
\<close>

definition randomUUID :: "(nat \<Rightarrow> string) \<Rightarrow> nat \<Rightarrow> string \<times> nat" where
  "randomUUID uuid k = (uuid k, Suc k)"

text \<open>\<^verbatim>\<open>Array.prototype.find\<close> is \<^const>\<open>List.find\<close>; \<^verbatim>\<open>findIndex\<close> returns \<open>-1\<close> when
  no element matches.\<close>

fun findIndex :: "('a \<Rightarrow> bool) \<Rightarrow> 'a list \<Rightarrow> int" where
  "findIndex P [] = -1"
| "findIndex P (x # xs) =
     (if P x then 0 else (let r = findIndex P xs in if r < 0 then -1 else r + 1))"

subsection \<open>Week aggregator: \<^verbatim>\<open>getCurrentWeekEntries\<close>\<close>

text \<open>
  \<^verbatim>\<open>Array.from({ length: 7 }, (_, i) => format(addDays(weekStart, i), "yyyy-MM-dd"))\<close>:
  the first \<^verbatim>\<open>format\<close> that throws ends the construction.
\<close>

fun formatAll :: "time_zone \<Rightarrow> js_date list \<Rightarrow> js_error + string list" where
  "formatAll tza [] = Inr []"
| "formatAll tza (d # ds) =
     (case format_yyyy_MM_dd tza d of
        Inl e \<Rightarrow> Inl e
      | Inr s \<Rightarrow> (case formatAll tza ds of Inl e \<Rightarrow> Inl e | Inr ss \<Rightarrow> Inr (s # ss)))"

definition weekDates :: "time_zone \<Rightarrow> js_date \<Rightarrow> js_error + string list" where
  "weekDates tza weekStart = formatAll tza (map (\<lambda>i. addDays tza weekStart (int i)) [0..<7])"

text \<open>
  The body of \<^verbatim>\<open>weekDates.map\<close> for one day:
  \<^verbatim>\<open>
  const entry = entries.find((e) => e.date === weekDate)
  return { date: weekDate, production: entry ? entry.production : 0,
           id: entry?.id || crypto.randomUUID() }
  \<close>
  An empty string is falsy, so a found entry with an empty id draws a new one too.
\<close>

definition weekEntry ::
  "SolarEntry list \<Rightarrow> (nat \<Rightarrow> string) \<Rightarrow> string \<Rightarrow> nat \<Rightarrow> SolarEntry \<times> nat" where
  "weekEntry entries uuid weekDate k =
     (let entry = find (\<lambda>e. date e = weekDate) entries;
          (i, k') = (case entry of
                       None \<Rightarrow> randomUUID uuid k
                     | Some e \<Rightarrow> if entry_id e \<noteq> [] then (entry_id e, k)
                                else randomUUID uuid k)
      in (\<lparr>date = weekDate,
           production = (case entry of None \<Rightarrow> 0 | Some e \<Rightarrow> production e),
           entry_id = i\<rparr>, k'))"

text \<open>The value of \<^verbatim>\<open>entry ? entry.production : 0\<close> for a day, as a function of the day.\<close>

definition dayProduction :: "SolarEntry list \<Rightarrow> string \<Rightarrow> real" where
  "dayProduction entries weekDate =
     (case find (\<lambda>e. date e = weekDate) entries of None \<Rightarrow> 0 | Some e \<Rightarrow> production e)"

fun weekEntries ::
  "SolarEntry list \<Rightarrow> (nat \<Rightarrow> string) \<Rightarrow> string list \<Rightarrow> nat \<Rightarrow> SolarEntry list \<times> nat" where
  "weekEntries entries uuid [] k = ([], k)"
| "weekEntries entries uuid (weekDate # rest) k =
     (let (e, k') = weekEntry entries uuid weekDate k;
          (es, k'') = weekEntries entries uuid rest k'
      in (e # es, k''))"

text \<open>
  \<^verbatim>\<open>getCurrentWeekEntries\<close>: \<open>None\<close> is the state \<^verbatim>\<open>date === undefined\<close>; the
  \<^verbatim>\<open>catch\<close> branch returns the empty list.
\<close>

definition getCurrentWeekEntries ::
  "time_zone \<Rightarrow> js_date option \<Rightarrow> SolarEntry list \<Rightarrow> (nat \<Rightarrow> string) \<Rightarrow> nat
     \<Rightarrow> SolarEntry list \<times> nat" where
  "getCurrentWeekEntries tza selected entries uuid k =
     (case selected of
        None \<Rightarrow> ([], k)
      | Some d \<Rightarrow>
          (case weekDates tza (startOfWeek tza d) of
             Inl err \<Rightarrow> ([], k)
           | Inr ds \<Rightarrow> weekEntries entries uuid ds k))"

subsection \<open>Statistics calculator: \<^verbatim>\<open>calculateWeeklyStats\<close>\<close>

text \<open>\<^verbatim>\<open>xs.reduce((sum, x) => sum + x, 0)\<close>\<close>

definition reduce_sum :: "real list \<Rightarrow> real" where
  "reduce_sum xs = foldl (\<lambda>sum x. sum + x) 0 xs"

text \<open>\<^verbatim>\<open>Math.max(...xs)\<close>; \<open>None\<close> is \<^verbatim>\<open>-Infinity\<close>, the value at no arguments.\<close>

fun Math_max :: "real list \<Rightarrow> real option" where
  "Math_max [] = None"
| "Math_max (x # xs) = Some (foldl max x xs)"

record WeeklyStats =
  weeklyTotal :: real
  dailyAverage :: real
  maxProduction :: "real option"
  maxProductionDay :: "SolarEntry option"

text \<open>
  \<^verbatim>\<open>
  const weeklyTotal = weeklyEntries.reduce((sum, entry) => sum + entry.production, 0)
  const daysWithProduction = weeklyEntries.filter((entry) => entry.production > 0).length
  const dailyAverage = daysWithProduction > 0 ? weeklyTotal / daysWithProduction : 0
  const maxProduction = Math.max(...weeklyEntries.map((entry) => entry.production))
  const maxProductionDay = weeklyEntries.find((entry) => entry.production === maxProduction)
  \<close>
  Nothing in the \<^verbatim>\<open>try\<close> block throws on a list of entries, so the \<^verbatim>\<open>catch\<close> branch
  has no case here.
\<close>

definition calculateWeeklyStats :: "SolarEntry list \<Rightarrow> WeeklyStats" where
  "calculateWeeklyStats weeklyEntries =
     (let total = reduce_sum (map production weeklyEntries);
          daysWithProduction = length (filter (\<lambda>entry. production entry > 0) weeklyEntries);
          average = (if daysWithProduction > 0 then total / real daysWithProduction else 0);
          mx = Math_max (map production weeklyEntries);
          mxDay = find (\<lambda>entry. Some (production entry) = mx) weeklyEntries
      in \<lparr>weeklyTotal = total, dailyAverage = average,
          maxProduction = mx, maxProductionDay = mxDay\<rparr>)"

text \<open>
  The best day as the tracker reports it. Both places that show it are guarded the same way:
  \<^verbatim>\<open>maxProduction > 0 && maxProductionDay ? <the day> : <placeholder>\<close>.
\<close>

definition bestDay :: "WeeklyStats \<Rightarrow> SolarEntry option" where
  "bestDay stats =
     (case maxProduction stats of
        None \<Rightarrow> None
      | Some m \<Rightarrow> (if m > 0 then maxProductionDay stats else None))"

subsection \<open>Chart data mapper: the reference average of \<^verbatim>\<open>SolarChart\<close>\<close>

text \<open>
  \<^verbatim>\<open>
  const productionValues = entries.map((entry) => entry.production)
  const nonZeroValues = productionValues.filter((value) => value > 0)
  const average = nonZeroValues.length > 0
    ? nonZeroValues.reduce((sum, value) => sum + value, 0) / nonZeroValues.length : 0
  \<close>
\<close>

definition chartAverage :: "SolarEntry list \<Rightarrow> real" where
  "chartAverage entries =
     (let productionValues = map production entries;
          nonZeroValues = filter (\<lambda>v. v > 0) productionValues
      in if length nonZeroValues > 0
         then reduce_sum nonZeroValues / real (length nonZeroValues)
         else 0)"

subsection \<open>Entry store: \<^verbatim>\<open>onSubmit\<close>, \<^verbatim>\<open>confirmDelete\<close> and its undo action\<close>

text \<open>
  \<^verbatim>\<open>onSubmit\<close>, as a function of the selected date, the validated form value and the
  entries; it returns the entries passed to \<^verbatim>\<open>setEntries\<close> (the old ones where it is not
  called). With no date selected it returns early; a \<^verbatim>\<open>format\<close> that throws is caught
  before any update.
\<close>

definition onSubmit ::
  "time_zone \<Rightarrow> js_date option \<Rightarrow> real \<Rightarrow> SolarEntry list \<Rightarrow> (nat \<Rightarrow> string) \<Rightarrow> nat
     \<Rightarrow> SolarEntry list \<times> nat" where
  "onSubmit tza selected productionValue entries uuid k =
     (case selected of
        None \<Rightarrow> (entries, k)
      | Some d \<Rightarrow>
          (case format_yyyy_MM_dd tza d of
             Inl err \<Rightarrow> (entries, k)
           | Inr formattedDate \<Rightarrow>
               (let existingEntryIndex = findIndex (\<lambda>entry. date entry = formattedDate) entries
                in if existingEntryIndex \<ge> 0
                   then (entries[nat existingEntryIndex :=
                           (entries ! nat existingEntryIndex)\<lparr>production := productionValue\<rparr>], k)
                   else (let (u, k') = randomUUID uuid k
                         in (entries @ [\<lparr>date = formattedDate, production = productionValue,
                                          entry_id = u\<rparr>], k')))))"

text \<open>
  \<^verbatim>\<open>confirmDelete\<close>: \<open>None\<close> is \<^verbatim>\<open>entryToDelete === null\<close>;
  \<^verbatim>\<open>entries.filter((e) => e.id !== entryToDelete.id)\<close>.
\<close>

definition confirmDelete :: "SolarEntry option \<Rightarrow> SolarEntry list \<Rightarrow> SolarEntry list" where
  "confirmDelete entryToDelete entries =
     (case entryToDelete of
        None \<Rightarrow> entries
      | Some target \<Rightarrow> filter (\<lambda>e. entry_id e \<noteq> entry_id target) entries)"

text \<open>The toast's Undo action: \<^verbatim>\<open>setEntries((prev) => [...prev, deletedEntry])\<close>.\<close>

definition undoDelete :: "SolarEntry \<Rightarrow> SolarEntry list \<Rightarrow> SolarEntry list" where
  "undoDelete deletedEntry prev = prev @ [deletedEntry]"

subsection \<open>Entry store: loading the saved entries\<close>











subsection \<open>Sample data\<close>

text \<open>
  Two time zones: UTC, and Pacific/Apia around the end of 2011, which went from ten hours
  behind UTC to fourteen hours ahead at 2011-12-30T10:00Z, so that local time went from the
  end of 2011-12-29 to the start of 2011-12-31.
\<close>

definition utcZone :: time_zone where
  "utcZone t isUTC = 0"


text \<open>A week window from Sunday 2024-02-25 to Saturday 2024-03-02 with the given productions.\<close>

definition sampleWeek :: "real list \<Rightarrow> SolarEntry list" where
  "sampleWeek ps =
     map (\<lambda>(d, p). \<lparr>date = d, production = p, entry_id = ''id-'' @ d\<rparr>)
       (zip [''2024-02-25'', ''2024-02-26'', ''2024-02-27'', ''2024-02-28'',
             ''2024-02-29'', ''2024-03-01'', ''2024-03-02''] ps)"

definition week_0_5_0_3 :: "SolarEntry list" where
  "week_0_5_0_3 = sampleWeek [0, 5, 0, 3, 0, 0, 0]"

definition week_tie :: "SolarEntry list" where
  "week_tie = sampleWeek [0, 5, 0, 0, 5, 0, 0]"

definition week_zero :: "SolarEntry list" where
  "week_zero = sampleWeek [0, 0, 0, 0, 0, 0, 0]"

definition week_neg :: "SolarEntry list" where
  "week_neg = sampleWeek [-2, 5, 0, 0, 0, 0, 0]"

text \<open>A store with one entry on the leap day, and one with two entries for the same date.\<close>

definition store_leap :: "SolarEntry list" where
  "store_leap = [\<lparr>date = ''2024-02-29'', production = 5, entry_id = ''a''\<rparr>]"

definition store_dup :: "SolarEntry list" where
  "store_dup = [\<lparr>date = ''2024-02-29'', production = 1, entry_id = ''a''\<rparr>,
                \<lparr>date = ''2024-02-29'', production = 2, entry_id = ''b''\<rparr>]"

text \<open>An identifier supply for closed examples.\<close>

definition sampleUUID :: "nat \<Rightarrow> string" where
  "sampleUUID k = ''uuid-'' @ toString k"

text \<open>
  A store whose only entry, of another day, has the first identifier of the supply; and the
  store after submitting 5 for 2024-02-29, deleting that entry, submitting 3 for the same day
  and pressing Undo.
\<close>

definition store_feb28 :: "SolarEntry list" where
  "store_feb28 = [\<lparr>date = ''2024-02-28'', production = 4, entry_id = sampleUUID 0\<rparr>]"

definition store_undone :: "SolarEntry list" where
  "store_undone = [\<lparr>date = ''2024-02-29'', production = 3, entry_id = sampleUUID 1\<rparr>,
                   \<lparr>date = ''2024-02-29'', production = 5, entry_id = sampleUUID 0\<rparr>]"


section \<open>Properties\<close>

subsection \<open>The calendar functions compute the Gregorian calendar\<close>

lemma div_succ:
  fixes a k :: int
  assumes k: "0 < k"
  shows "(a + 1) div k = a div k + (if (a + 1) mod k = 0 then 1 else 0)"
proof -
  define q r where "q = a div k" and "r = a mod k"
  have a: "a = k * q + r" by (simp add: q_def r_def)
  have r: "0 \<le> r" "r < k" using k by (simp_all add: r_def)
  show ?thesis
  proof (cases "r + 1 < k")
    case True
    have eq: "a + 1 = k * q + (r + 1)" using a by simp
    have "(a + 1) div k = q" using eq r True by (intro int_div_pos_eq[of _ _ _ "r + 1"]) simp_all
    moreover have "(a + 1) mod k = r + 1" using eq r True by (intro int_mod_pos_eq[of _ _ q]) simp_all
    ultimately show ?thesis using r by (simp add: q_def)
  next
    case False
    with r have rk: "r + 1 = k" by simp
    have eq: "a + 1 = k * (q + 1) + 0" using a rk by (simp add: algebra_simps)
    have "(a + 1) div k = q + 1" using eq k by (intro int_div_pos_eq[of _ _ _ 0]) simp_all
    moreover have "(a + 1) mod k = 0" using eq k by (intro int_mod_pos_eq[of _ _ "q + 1"]) simp_all
    ultimately show ?thesis by (simp add: q_def)
  qed
qed

lemma mod_shift: "(y - k * c) mod k = y mod k" for y k c :: int
  using mod_mult_self2[of "y - k * c" k c] by simp

lemma div4: "(y - 1968) div 4 = (y - 1969) div 4 + (if y mod 4 = 0 then 1 else 0)" for y :: int
  using div_succ[of 4 "y - 1969"] mod_shift[of y 4 492] by simp
lemma div100: "(y - 1900) div 100 = (y - 1901) div 100 + (if y mod 100 = 0 then 1 else 0)" for y :: int
  using div_succ[of 100 "y - 1901"] mod_shift[of y 100 19] by simp
lemma div400: "(y - 1600) div 400 = (y - 1601) div 400 + (if y mod 400 = 0 then 1 else 0)" for y :: int
  using div_succ[of 400 "y - 1601"] mod_shift[of y 400 4] by simp

lemma mod_100_4: "y mod 100 = 0 \<Longrightarrow> y mod 4 = 0" for y :: int
  using mod_mod_cancel[of 4 100 y] by simp

lemma mod_400_100: "y mod 400 = 0 \<Longrightarrow> y mod 100 = 0" for y :: int
  using mod_mod_cancel[of 100 400 y] by simp


lemma DaysInYear_cases: "DaysInYear y = 365 \<or> DaysInYear y = 366"
  by (simp add: DaysInYear_def)

lemma DayFromYear_succ: "DayFromYear (y + 1) = DayFromYear y + DaysInYear y"
proof -
  have "DayFromYear (y + 1) =
          365 * (y - 1970) + 365 + (y - 1968) div 4 - (y - 1900) div 100 + (y - 1600) div 400"
    by (simp add: DayFromYear_def algebra_simps)
  also have "\<dots> = DayFromYear y + 365 + (if y mod 4 = 0 then 1 else 0)
                 - (if y mod 100 = 0 then 1 else 0) + (if y mod 400 = 0 then 1 else 0)"
    unfolding div4 div100 div400 DayFromYear_def by simp
  also have "\<dots> = DayFromYear y + DaysInYear y"
    using mod_100_4[of y] mod_400_100[of y] by (auto simp: DaysInYear_def)
  finally show ?thesis .
qed

lemma DayFromYear_mono: "y \<le> y' \<Longrightarrow> DayFromYear y \<le> DayFromYear y'"
proof (induction y' rule: int_ge_induct)
  case base
  show ?case by simp
next
  case (step i)
  have "DayFromYear (i + 1) = DayFromYear i + DaysInYear i" by (rule DayFromYear_succ)
  with step.IH DaysInYear_cases[of i] show ?case by auto
qed

lemma div_bounds:
  fixes a k :: int
  assumes "0 < k"
  shows "k * (a div k) \<le> a" and "a < k * (a div k) + k"
proof -
  have "k * (a div k) + a mod k = a" by simp
  moreover have "0 \<le> a mod k" "a mod k < k" using assms by simp_all
  ultimately show "k * (a div k) \<le> a" and "a < k * (a div k) + k" by linarith+
qed

lemma DayFromYear_upper: "400 * DayFromYear y \<le> 146097 * y - 287810501"
proof -
  define q4 q100 q400 where "q4 = (y - 1969) div 4" and "q100 = (y - 1901) div 100"
    and "q400 = (y - 1601) div 400"
  have a: "4 * q4 \<le> y - 1969"
    unfolding q4_def using div_bounds(1)[of 4 "y - 1969"] by simp
  have b: "y - 1901 < 100 * q100 + 100"
    unfolding q100_def using div_bounds(2)[of 100 "y - 1901"] by simp
  have c: "400 * q400 \<le> y - 1601"
    unfolding q400_def using div_bounds(1)[of 400 "y - 1601"] by simp
  have "DayFromYear y = 365 * y - 719050 + q4 - q100 + q400"
    by (simp add: DayFromYear_def q4_def q100_def q400_def)
  with a b c show ?thesis by linarith
qed

lemma DayFromYear_lower: "146097 * y - 287811596 \<le> 400 * DayFromYear y"
proof -
  define q4 q100 q400 where "q4 = (y - 1969) div 4" and "q100 = (y - 1901) div 100"
    and "q400 = (y - 1601) div 400"
  have a: "y - 1969 < 4 * q4 + 4"
    unfolding q4_def using div_bounds(2)[of 4 "y - 1969"] by simp
  have b: "100 * q100 \<le> y - 1901"
    unfolding q100_def using div_bounds(1)[of 100 "y - 1901"] by simp
  have c: "y - 1601 < 400 * q400 + 400"
    unfolding q400_def using div_bounds(2)[of 400 "y - 1601"] by simp
  have "DayFromYear y = 365 * y - 719050 + q4 - q100 + q400"
    by (simp add: DayFromYear_def q4_def q100_def q400_def)
  with a b c show ?thesis by linarith
qed

lemma YearFromTime_bounds:
  "DayFromYear (YearFromTime n) \<le> n \<and> n < DayFromYear (YearFromTime n + 1)"
proof -
  define e where "e = (400 * n) div 146097"
  define y where "y = 1970 + e"
  have lo: "146097 * e \<le> 400 * n"
    unfolding e_def using div_bounds(1)[of 146097 "400 * n"] by simp
  have hi: "400 * n < 146097 * e + 146097"
    unfolding e_def using div_bounds(2)[of 146097 "400 * n"] by simp
  define lo_day hi_day where "lo_day = DayFromYear (1969 + e)" and "hi_day = DayFromYear (1972 + e)"
  have "400 * lo_day \<le> 146097 * (1969 + e) - 287810501"
    unfolding lo_day_def by (rule DayFromYear_upper)
  then have "400 * lo_day \<le> 146097 * e - 145508" by simp
  with lo have "lo_day \<le> n" by linarith
  then have below: "DayFromYear (y - 1) \<le> n" by (simp add: lo_day_def y_def)
  have "146097 * (1972 + e) - 287811596 \<le> 400 * hi_day"
    unfolding hi_day_def by (rule DayFromYear_lower)
  then have "146097 * e + 291688 \<le> 400 * hi_day" by simp
  with hi have "n < hi_day" by linarith
  then have above: "n < DayFromYear (y + 2)" by (simp add: hi_day_def y_def)
  have yft: "YearFromTime n =
      (if DayFromYear (y + 1) \<le> n then y + 1 else if DayFromYear y \<le> n then y else y - 1)"
    by (simp add: YearFromTime_def y_def e_def Let_def)
  show ?thesis
  proof (cases "DayFromYear (y + 1) \<le> n")
    case True
    with above yft show ?thesis by (simp add: add.commute add.left_commute)
  next
    case False
    show ?thesis
    proof (cases "DayFromYear y \<le> n")
      case True
      with False yft show ?thesis by simp
    next
      case b: False
      with False yft below show ?thesis by simp
    qed
  qed
qed

lemma YearFromTime_unique:
  assumes "DayFromYear y \<le> n" and "n < DayFromYear (y + 1)"
  shows "YearFromTime n = y"
proof (rule ccontr)
  assume ne: "YearFromTime n \<noteq> y"
  let ?z = "YearFromTime n"
  from YearFromTime_bounds[of n] have z: "DayFromYear ?z \<le> n" "n < DayFromYear (?z + 1)"
    by simp_all
  from ne have "?z + 1 \<le> y \<or> y + 1 \<le> ?z" by linarith
  then show False
  proof
    assume "?z + 1 \<le> y"
    then have "DayFromYear (?z + 1) \<le> DayFromYear y" by (rule DayFromYear_mono)
    with z assms show False by linarith
  next
    assume "y + 1 \<le> ?z"
    then have "DayFromYear (y + 1) \<le> DayFromYear ?z" by (rule DayFromYear_mono)
    with z assms show False by linarith
  qed
qed


lemma DayWithinYear_range:
  "0 \<le> DayWithinYear n \<and> DayWithinYear n < DaysInYear (YearFromTime n)"
  using YearFromTime_bounds[of n] DayFromYear_succ[of "YearFromTime n"]
  by (simp add: DayWithinYear_def)

lemma table_same_year:
  fixes d l :: int
  assumes "l = 0 \<or> l = 1" and "0 \<le> d" and "d + 1 < 365 + l"
  defines "m \<equiv> monthTable d l" and "m' \<equiv> monthTable (d + 1) l"
  defines "len \<equiv> (if m = 1 then 28 + l else if m = 3 \<or> m = 5 \<or> m = 8 \<or> m = 10 then 30 else 31)"
  shows "(if dateTable m d l < len then m' = m \<and> dateTable m' (d + 1) l = dateTable m d l + 1
          else m < 11 \<and> m' = m + 1 \<and> dateTable m' (d + 1) l = 1)"
proof -
  have "d < 30 \<or> d = 30 \<or> (31 \<le> d \<and> d < 58 + l) \<or> d = 58 + l
    \<or> (59 + l \<le> d \<and> d < 89 + l) \<or> d = 89 + l
    \<or> (90 + l \<le> d \<and> d < 119 + l) \<or> d = 119 + l
    \<or> (120 + l \<le> d \<and> d < 150 + l) \<or> d = 150 + l
    \<or> (151 + l \<le> d \<and> d < 180 + l) \<or> d = 180 + l
    \<or> (181 + l \<le> d \<and> d < 211 + l) \<or> d = 211 + l
    \<or> (212 + l \<le> d \<and> d < 242 + l) \<or> d = 242 + l
    \<or> (243 + l \<le> d \<and> d < 272 + l) \<or> d = 272 + l
    \<or> (273 + l \<le> d \<and> d < 303 + l) \<or> d = 303 + l
    \<or> (304 + l \<le> d \<and> d < 333 + l) \<or> d = 333 + l
    \<or> 334 + l \<le> d"
    using assms(1,2,3) by presburger
  then show ?thesis
    using assms(1,2,3) unfolding m_def m'_def len_def monthTable_def dateTable_def
    by (elim disjE conjE) simp_all
qed

lemma calendarDate_succ: "calendarDate (n + 1) = nextDate (calendarDate n)"
proof -
  define y where "y = YearFromTime n"
  define d where "d = DayWithinYear n"
  define l where "l = InLeapYear n"
  have l: "l = 0 \<or> l = 1" by (simp add: l_def InLeapYear_def)
  have diy: "DaysInYear y = 365 + l"
    using DaysInYear_cases[of y] by (auto simp: l_def InLeapYear_def y_def)
  have d: "0 \<le> d" "d < 365 + l"
    using DayWithinYear_range[of n] diy by (simp_all add: d_def y_def)
  have n: "n = DayFromYear y + d" by (simp add: d_def DayWithinYear_def y_def)
  have len: "DaysInMonth y m =
      (if m = 1 then 28 + l else if m = 3 \<or> m = 5 \<or> m = 8 \<or> m = 10 then 30 else 31)" for m
    using l diy by (auto simp: DaysInMonth_def)
  have old: "calendarDate n = (y, monthTable d l, dateTable (monthTable d l) d l)"
    by (simp add: calendarDate_def MonthFromTime_def DateFromTime_def y_def d_def l_def)
  show ?thesis
  proof (cases "d + 1 < 365 + l")
    case True
    have "YearFromTime (n + 1) = y"
    proof (rule YearFromTime_unique)
      show "DayFromYear y \<le> n + 1" using n d by simp
      show "n + 1 < DayFromYear (y + 1)" using n True diy by (simp add: DayFromYear_succ)
    qed
    then have y': "YearFromTime (n + 1) = YearFromTime n" by (simp add: y_def)
    have d': "DayWithinYear (n + 1) = d + 1" by (simp add: DayWithinYear_def y' d_def)
    have l': "InLeapYear (n + 1) = l" by (simp add: InLeapYear_def y' l_def)
    have new: "calendarDate (n + 1) =
        (y, monthTable (d + 1) l, dateTable (monthTable (d + 1) l) (d + 1) l)"
      by (simp add: calendarDate_def MonthFromTime_def DateFromTime_def d' l' y' y_def)
    define m dt m' dt' where "m = monthTable d l" and "dt = dateTable m d l"
      and "m' = monthTable (d + 1) l" and "dt' = dateTable m' (d + 1) l"
    have tab: "if dt < DaysInMonth y m then m' = m \<and> dt' = dt + 1
               else m < 11 \<and> m' = m + 1 \<and> dt' = 1"
      unfolding len m_def dt_def m'_def dt'_def by (rule table_same_year[OF l d(1) True])
    have new': "calendarDate (n + 1) = (y, m', dt')"
      by (simp add: new m'_def dt'_def)
    have old': "calendarDate n = (y, m, dt)"
      by (simp add: old m_def dt_def)
    show ?thesis
    proof (cases "dt < DaysInMonth y m")
      case True
      with tab show ?thesis unfolding new' old' by simp
    next
      case False
      with tab show ?thesis unfolding new' old' by simp
    qed
  next
    case False
    with d have last: "d = 364 + l" by simp
    have next_year: "n + 1 = DayFromYear (y + 1)"
      using n last diy by (simp add: DayFromYear_succ)
    have "YearFromTime (n + 1) = y + 1"
    proof (rule YearFromTime_unique)
      show "DayFromYear (y + 1) \<le> n + 1" using next_year by simp
      have "DayFromYear (y + 1) < DayFromYear (y + 1 + 1)"
        unfolding DayFromYear_succ[of "y + 1"] using DaysInYear_cases[of "y + 1"] by auto
      with next_year show "n + 1 < DayFromYear (y + 1 + 1)" by simp
    qed
    then have y': "YearFromTime (n + 1) = y + 1" .
    have d': "DayWithinYear (n + 1) = 0"
      unfolding DayWithinYear_def y' using next_year by simp
    have new: "calendarDate (n + 1) = (y + 1, 0, 1)"
      by (simp add: calendarDate_def MonthFromTime_def DateFromTime_def d' y'
          monthTable_def dateTable_def)
    have "monthTable d l = 11" "dateTable 11 d l = 31"
      using l by (auto simp: last monthTable_def dateTable_def)
    then have old': "calendarDate n = (y, 11, 31)" by (simp add: old)
    show ?thesis unfolding new old' by (simp add: len)
  qed
qed

lemma table_valid:
  fixes d l :: int
  assumes "l = 0 \<or> l = 1" and "0 \<le> d" and "d < 365 + l"
  defines "m \<equiv> monthTable d l"
  shows "0 \<le> m \<and> m \<le> 11 \<and> 1 \<le> dateTable m d l
         \<and> dateTable m d l \<le> (if m = 1 then 28 + l
                               else if m = 3 \<or> m = 5 \<or> m = 8 \<or> m = 10 then 30 else 31)"
proof -
  have "d < 31 \<or> (31 \<le> d \<and> d < 59 + l) \<or> (59 + l \<le> d \<and> d < 90 + l)
    \<or> (90 + l \<le> d \<and> d < 120 + l) \<or> (120 + l \<le> d \<and> d < 151 + l)
    \<or> (151 + l \<le> d \<and> d < 181 + l) \<or> (181 + l \<le> d \<and> d < 212 + l)
    \<or> (212 + l \<le> d \<and> d < 243 + l) \<or> (243 + l \<le> d \<and> d < 273 + l)
    \<or> (273 + l \<le> d \<and> d < 304 + l) \<or> (304 + l \<le> d \<and> d < 334 + l)
    \<or> 334 + l \<le> d"
    using assms(1,2,3) by presburger
  then show ?thesis
    using assms(1,2,3) unfolding m_def monthTable_def dateTable_def
    by (elim disjE conjE) simp_all
qed

lemma calendarDate_valid:
  "0 \<le> MonthFromTime n \<and> MonthFromTime n \<le> 11 \<and> 1 \<le> DateFromTime n
   \<and> DateFromTime n \<le> DaysInMonth (YearFromTime n) (MonthFromTime n)"
proof -
  define l where "l = InLeapYear n"
  have l: "l = 0 \<or> l = 1" by (simp add: l_def InLeapYear_def)
  have diy: "DaysInYear (YearFromTime n) = 365 + l"
    using DaysInYear_cases[of "YearFromTime n"] by (auto simp: l_def InLeapYear_def)
  have d: "0 \<le> DayWithinYear n" "DayWithinYear n < 365 + l"
    using DayWithinYear_range[of n] diy by simp_all
  have len: "DaysInMonth (YearFromTime n) m =
      (if m = 1 then 28 + l else if m = 3 \<or> m = 5 \<or> m = 8 \<or> m = 10 then 30 else 31)" for m
    using l diy by (auto simp: DaysInMonth_def)
  from table_valid[OF l d] show ?thesis
    unfolding MonthFromTime_def DateFromTime_def len l_def by simp
qed

lemma calendarDate_add: "calendarDate (s + int i) = (nextDate ^^ i) (calendarDate s)"
proof (induction i)
  case 0
  show ?case by simp
next
  case (Suc i)
  have "s + int (Suc i) = s + int i + 1" by simp
  then have "calendarDate (s + int (Suc i)) = calendarDate (s + int i + 1)"
    by (rule arg_cong)
  also have "\<dots> = nextDate (calendarDate (s + int i))" by (rule calendarDate_succ)
  finally show ?case using Suc.IH by simp
qed

subsection \<open>The week window\<close>

text \<open>The selected date never becomes the Invalid Date.\<close>

lemma handleDateChange_valid:
  "selected \<noteq> Some InvalidDate \<Longrightarrow> handleDateChange newDate selected \<noteq> Some InvalidDate"
  by (auto simp: handleDateChange_def split: option.splits js_date.splits)

text \<open>
  \<^verbatim>\<open>MakeDay\<close> of the year and the month of a day, and its day of the month moved by \<open>k\<close>, is
  the day \<open>k\<close> days later: \<^verbatim>\<open>setDate(getDate() + k)\<close> moves the local time by \<open>k\<close> days.
\<close>

lemma table_inverse: "monthStart m l + dateTable m d l = d + 1"
  by (simp add: monthStart_def dateTable_def)

lemma monthTable_range: "0 \<le> monthTable d l" "monthTable d l < 12"
  by (simp_all add: monthTable_def)

lemma MakeDay_calendar:
  "MakeDay (YearFromTime n) (MonthFromTime n) (DateFromTime n + k) = n + k"
proof -
  define m where "m = MonthFromTime n"
  have m: "0 \<le> m" "m < 12" unfolding m_def MonthFromTime_def by (rule monthTable_range)+
  then have dm: "m div 12 = 0" "m mod 12 = m" by simp_all
  have "MakeDay (YearFromTime n) m (dateTable m (DayWithinYear n) (InLeapYear n) + k)
      = DayFromYear (YearFromTime n) + (monthStart m (InLeapYear n)
          + dateTable m (DayWithinYear n) (InLeapYear n)) + k - 1"
    by (simp add: MakeDay_def Let_def dm InLeapYear_def)
  also have "\<dots> = n + k"
    unfolding table_inverse by (simp add: DayWithinYear_def)
  finally show ?thesis unfolding m_def DateFromTime_def .
qed

lemma TimeWithinDay_range: "0 \<le> TimeWithinDay x" "TimeWithinDay x < msPerDay"
  by (simp_all add: TimeWithinDay_def msPerDay_def)

lemma Day_MakeDate: "0 \<le> w \<Longrightarrow> w < msPerDay \<Longrightarrow> Day (MakeDate n w) = n"
  by (simp add: Day_def MakeDate_def msPerDay_def)

lemma MakeDate_range:
  "0 \<le> w \<Longrightarrow> w < msPerDay \<Longrightarrow> n * msPerDay \<le> MakeDate n w"
  "0 \<le> w \<Longrightarrow> w < msPerDay \<Longrightarrow> MakeDate n w < (n + 1) * msPerDay"
  by (simp_all add: MakeDate_def algebra_simps)

lemma setDate_getDate:
  "setDate tza (TimeValue t) (getDate tza t + k) =
     TimeClip (UTC tza (MakeDate (Day (LocalTime tza t) + k) (TimeWithinDay (LocalTime tza t))))"
  by (simp add: getDate_def Let_def MakeDay_calendar)

lemma WeekDay_range: "0 \<le> WeekDay n" "WeekDay n < 7"
  by (simp_all add: WeekDay_def)

lemma startOfWeek_TimeValue:
  "startOfWeek tza (TimeValue t) =
     setHours0 tza (TimeClip (UTC tza (MakeDate (Day (LocalTime tza t) - WeekDay (Day (LocalTime tza t)))
        (TimeWithinDay (LocalTime tza t)))))"
proof -
  have "startOfWeek tza (TimeValue t) =
      setHours0 tza (setDate tza (TimeValue t) (getDate tza t + (- WeekDay (Day (LocalTime tza t)))))"
    using WeekDay_range[of "Day (LocalTime tza t)"]
    by (simp add: Let_def weekStartsOn_def getDay_def del: setDate.simps setHours0.simps)
  then show ?thesis unfolding setDate_getDate by simp
qed


lemma TimeClip_in_range: "\<bar>v\<bar> \<le> maxTime \<Longrightarrow> TimeClip v = TimeValue v"
  by (simp add: TimeClip_def)

lemma formatAll_map:
  "(\<And>i. i \<in> set js \<Longrightarrow> format_yyyy_MM_dd tza (f i) = Inr (g i))
     \<Longrightarrow> formatAll tza (map f js) = Inr (map g js)"
  by (induction js) simp_all

text \<open>
  Where every local time of the seven days from the Sunday \<open>s\<close> converts to a time value that
  is in range and falls on the same local day, \<^verbatim>\<open>startOfWeek\<close> is a valid date of local day
  \<open>s\<close> and \<^verbatim>\<open>addDays\<close> reaches the local days \<open>s\<close> to \<open>s + 6\<close>.
\<close>

lemma week_start:
  fixes tza :: time_zone and t :: int
  defines "s \<equiv> Day (LocalTime tza t) - WeekDay (Day (LocalTime tza t))"
  assumes inRange: "\<And>x. s * msPerDay \<le> x \<Longrightarrow> x < (s + 7) * msPerDay \<Longrightarrow> \<bar>UTC tza x\<bar> \<le> maxTime"
    and sameDay: "\<And>x. s * msPerDay \<le> x \<Longrightarrow> x < (s + 7) * msPerDay
                    \<Longrightarrow> Day (LocalTime tza (UTC tza x)) = Day x"
  shows "startOfWeek tza (TimeValue t) = TimeValue (UTC tza (MakeDate s 0))"
    and "Day (LocalTime tza (UTC tza (MakeDate s 0))) = s"
proof -
  define w where "w = TimeWithinDay (LocalTime tza t)"
  have w: "0 \<le> w" "w < msPerDay" unfolding w_def by (rule TimeWithinDay_range)+
  have z: "(0::int) \<le> 0" "0 < msPerDay" by (simp_all add: msPerDay_def)
  have r1: "s * msPerDay \<le> MakeDate s w" "MakeDate s w < (s + 7) * msPerDay"
    using MakeDate_range[OF w, of s] by (simp_all add: msPerDay_def)
  have r0: "s * msPerDay \<le> MakeDate s 0" "MakeDate s 0 < (s + 7) * msPerDay"
    using MakeDate_range[OF z, of s] by (simp_all add: msPerDay_def)
  have d1: "Day (LocalTime tza (UTC tza (MakeDate s w))) = s"
    using sameDay[OF r1] Day_MakeDate[OF w, of s] by simp
  show d0: "Day (LocalTime tza (UTC tza (MakeDate s 0))) = s"
    using sameDay[OF r0] Day_MakeDate[OF z, of s] by simp
  have "startOfWeek tza (TimeValue t) = setHours0 tza (TimeClip (UTC tza (MakeDate s w)))"
    unfolding startOfWeek_TimeValue s_def w_def ..
  also have "\<dots> = setHours0 tza (TimeValue (UTC tza (MakeDate s w)))"
    using inRange[OF r1] by (simp only: TimeClip_in_range)
  also have "\<dots> = TimeClip (UTC tza (MakeDate s 0))"
    by (simp only: setHours0.simps d1)
  also have "\<dots> = TimeValue (UTC tza (MakeDate s 0))"
    using inRange[OF r0] by (simp only: TimeClip_in_range)
  finally show "startOfWeek tza (TimeValue t) = TimeValue (UTC tza (MakeDate s 0))" .
qed

lemma week_day_format:
  fixes tza :: time_zone and s u :: int and i :: nat
  assumes inRange: "\<And>x. s * msPerDay \<le> x \<Longrightarrow> x < (s + 7) * msPerDay \<Longrightarrow> \<bar>UTC tza x\<bar> \<le> maxTime"
    and sameDay: "\<And>x. s * msPerDay \<le> x \<Longrightarrow> x < (s + 7) * msPerDay
                    \<Longrightarrow> Day (LocalTime tza (UTC tza x)) = Day x"
    and u: "Day (LocalTime tza u) = s"
    and i: "i < 7"
  shows "format_yyyy_MM_dd tza (addDays tza (TimeValue u) (int i)) = Inr (isoDate (s + int i))"
proof (cases "i = 0")
  case True
  then show ?thesis by (simp add: u)
next
  case False
  define w where "w = TimeWithinDay (LocalTime tza u)"
  define n where "n = s + int i"
  have w: "0 \<le> w" "w < msPerDay" unfolding w_def by (rule TimeWithinDay_range)+
  have n: "s \<le> n" "n + 1 \<le> s + 7" using i by (simp_all add: n_def)
  have r: "s * msPerDay \<le> MakeDate n w" "MakeDate n w < (s + 7) * msPerDay"
    using MakeDate_range[OF w, of n] n by (simp_all add: msPerDay_def)
  have "addDays tza (TimeValue u) (int i) = setDate tza (TimeValue u) (getDate tza u + int i)"
    using False by (simp del: setDate.simps)
  also have "\<dots> = TimeClip (UTC tza (MakeDate n w))"
    unfolding setDate_getDate u w_def n_def ..
  also have "\<dots> = TimeValue (UTC tza (MakeDate n w))"
    using inRange[OF r] by (simp only: TimeClip_in_range)
  finally have "format_yyyy_MM_dd tza (addDays tza (TimeValue u) (int i))
      = Inr (isoDate (Day (LocalTime tza (UTC tza (MakeDate n w)))))" by simp
  also have "Day (LocalTime tza (UTC tza (MakeDate n w))) = n"
    using sameDay[OF r] Day_MakeDate[OF w, of n] by simp
  finally show ?thesis unfolding n_def .
qed

lemma weekDates_startOfWeek:
  fixes tza :: time_zone and t :: int
  defines "s \<equiv> Day (LocalTime tza t) - WeekDay (Day (LocalTime tza t))"
  assumes inRange: "\<And>x. s * msPerDay \<le> x \<Longrightarrow> x < (s + 7) * msPerDay \<Longrightarrow> \<bar>UTC tza x\<bar> \<le> maxTime"
    and sameDay: "\<And>x. s * msPerDay \<le> x \<Longrightarrow> x < (s + 7) * msPerDay
                    \<Longrightarrow> Day (LocalTime tza (UTC tza x)) = Day x"
  shows "weekDates tza (startOfWeek tza (TimeValue t)) = Inr (map (\<lambda>i. isoDate (s + int i)) [0..<7])"
proof -
  note ws = week_start[of tza t, folded s_def, OF inRange sameDay]
  have sw: "startOfWeek tza (TimeValue t) = TimeValue (UTC tza (MakeDate s 0))" by (rule ws(1))
  have "formatAll tza (map (\<lambda>i. addDays tza (TimeValue (UTC tza (MakeDate s 0))) (int i)) [0..<7])
      = Inr (map (\<lambda>i. isoDate (s + int i)) [0..<7])"
  proof (rule formatAll_map)
    fix i :: nat assume "i \<in> set [0..<7]"
    then have "i < 7" by simp
    with inRange sameDay ws(2)
    show "format_yyyy_MM_dd tza (addDays tza (TimeValue (UTC tza (MakeDate s 0))) (int i))
        = Inr (isoDate (s + int i))"
      by (rule week_day_format)
  qed
  then show ?thesis by (simp only: weekDates_def sw)
qed

lemma weekEntry_fields:
  "date (fst (weekEntry es uuid d k)) = d"
  "production (fst (weekEntry es uuid d k)) = dayProduction es d"
  by (simp_all add: weekEntry_def dayProduction_def randomUUID_def Let_def split_def)

lemma weekEntries_dates: "map date (fst (weekEntries es uuid ds k)) = ds"
  by (induction ds arbitrary: k) (simp_all add: split_def Let_def weekEntry_fields)

lemma weekEntries_productions:
  "map production (fst (weekEntries es uuid ds k)) = map (dayProduction es) ds"
  by (induction ds arbitrary: k) (simp_all add: split_def Let_def weekEntry_fields)

lemma getCurrentWeekEntries_TimeValue:
  fixes tza :: time_zone and t :: int
  defines "s \<equiv> Day (LocalTime tza t) - WeekDay (Day (LocalTime tza t))"
  assumes inRange: "\<And>x. s * msPerDay \<le> x \<Longrightarrow> x < (s + 7) * msPerDay \<Longrightarrow> \<bar>UTC tza x\<bar> \<le> maxTime"
    and sameDay: "\<And>x. s * msPerDay \<le> x \<Longrightarrow> x < (s + 7) * msPerDay
                    \<Longrightarrow> Day (LocalTime tza (UTC tza x)) = Day x"
  shows "getCurrentWeekEntries tza (Some (TimeValue t)) es uuid k =
     weekEntries es uuid (map (\<lambda>i. isoDate (s + int i)) [0..<7]) k"
  using weekDates_startOfWeek[of tza t, folded s_def, OF inRange sameDay]
  by (simp only: getCurrentWeekEntries_def option.case sum.case)

text \<open>With no date selected, and on the Invalid Date, the window is empty.\<close>

lemma getCurrentWeekEntries_no_date:
  "getCurrentWeekEntries tza None es uuid k = ([], k)"
  "getCurrentWeekEntries tza (Some InvalidDate) es uuid k = ([], k)"
  by (simp_all add: getCurrentWeekEntries_def weekDates_def upt_rec)

text \<open>In every time zone the window is empty or the entries of a list of dates.\<close>

lemma getCurrentWeekEntries_cases:
  "getCurrentWeekEntries tza selected es uuid k = ([], k)
   \<or> (\<exists>ds. getCurrentWeekEntries tza selected es uuid k = weekEntries es uuid ds k)"
  by (auto simp: getCurrentWeekEntries_def split: option.splits sum.splits)

lemma week_production_of_date:
  assumes "i < length (fst (getCurrentWeekEntries tza selected es uuid k))"
  shows "production (fst (getCurrentWeekEntries tza selected es uuid k) ! i)
       = dayProduction es (date (fst (getCurrentWeekEntries tza selected es uuid k) ! i))"
proof -
  let ?w = "fst (getCurrentWeekEntries tza selected es uuid k)"
  from assms getCurrentWeekEntries_cases[of tza selected es uuid k]
  obtain ds where w: "getCurrentWeekEntries tza selected es uuid k = weekEntries es uuid ds k"
    by auto
  have len: "length ds = length ?w"
    using arg_cong[OF weekEntries_dates[of es uuid ds k], of length] by (simp add: w)
  have "production (?w ! i) = map production ?w ! i" using assms by simp
  also have "\<dots> = dayProduction es (ds ! i)"
    using assms len unfolding w weekEntries_productions by simp
  also have "ds ! i = map date ?w ! i" unfolding w weekEntries_dates ..
  also have "\<dots> = date (?w ! i)" using assms by simp
  finally show ?thesis .
qed


lemma dayProduction_first:
  "es = xs @ e # ys \<Longrightarrow> date e = d \<Longrightarrow> \<forall>x\<in>set xs. date x \<noteq> d \<Longrightarrow> dayProduction es d = production e"
  by (induction xs arbitrary: es) (auto simp: dayProduction_def)


lemmas iso_defs = yyyy_def MM_def dd_def addLeadingZeros_def digit_def

lemma iterate_7:
  "map (\<lambda>i. g ((f ^^ i) c)) [0..<7] =
     [g c, g (f c), g (f (f c)), g (f (f (f c))), g (f (f (f (f c)))),
      g (f (f (f (f (f c))))), g (f (f (f (f (f (f c))))))]"
  by (simp add: upt_rec numeral_eq_Suc)

lemma calendarDate_19778: "calendarDate 19778 = (2024, 1, 25)"
proof -
  have "YearFromTime 19778 = 2024" by (simp add: YearFromTime_def DayFromYear_def)
  then show ?thesis
    by (simp add: calendarDate_def MonthFromTime_def DateFromTime_def DayWithinYear_def
        InLeapYear_def DaysInYear_def DayFromYear_def monthTable_def dateTable_def)
qed

lemma calendarDate_20086: "calendarDate 20086 = (2024, 11, 29)"
proof -
  have "YearFromTime 20086 = 2024" by (simp add: YearFromTime_def DayFromYear_def)
  then show ?thesis
    by (simp add: calendarDate_def MonthFromTime_def DateFromTime_def DayWithinYear_def
        InLeapYear_def DaysInYear_def DayFromYear_def monthTable_def dateTable_def)
qed

lemma nextDate_leap_week:
  "nextDate (2024, 1, 25) = (2024, 1, 26)" "nextDate (2024, 1, 26) = (2024, 1, 27)"
  "nextDate (2024, 1, 27) = (2024, 1, 28)" "nextDate (2024, 1, 28) = (2024, 1, 29)"
  "nextDate (2024, 1, 29) = (2024, 2, 1)" "nextDate (2024, 2, 1) = (2024, 2, 2)"
  by (simp_all add: DaysInMonth_def DaysInYear_def)

lemma isoString_leap_week:
  "isoString (2024, 1, 25) = ''2024-02-25''" "isoString (2024, 1, 26) = ''2024-02-26''"
  "isoString (2024, 1, 27) = ''2024-02-27''" "isoString (2024, 1, 28) = ''2024-02-28''"
  "isoString (2024, 1, 29) = ''2024-02-29''" "isoString (2024, 2, 1) = ''2024-03-01''"
  "isoString (2024, 2, 2) = ''2024-03-02''"
  by (simp_all add: iso_defs)

lemma nextDate_new_year_week:
  "nextDate (2024, 11, 29) = (2024, 11, 30)" "nextDate (2024, 11, 30) = (2024, 11, 31)"
  "nextDate (2024, 11, 31) = (2025, 0, 1)" "nextDate (2025, 0, 1) = (2025, 0, 2)"
  "nextDate (2025, 0, 2) = (2025, 0, 3)" "nextDate (2025, 0, 3) = (2025, 0, 4)"
  by (simp_all add: DaysInMonth_def DaysInYear_def)

lemma isoString_new_year_week:
  "isoString (2024, 11, 29) = ''2024-12-29''" "isoString (2024, 11, 30) = ''2024-12-30''"
  "isoString (2024, 11, 31) = ''2024-12-31''" "isoString (2025, 0, 1) = ''2025-01-01''"
  "isoString (2025, 0, 2) = ''2025-01-02''" "isoString (2025, 0, 3) = ''2025-01-03''"
  "isoString (2025, 0, 4) = ''2025-01-04''"
  by (simp_all add: iso_defs)

lemma leap_week_isoDates:
  "map (\<lambda>i. isoDate (19778 + int i)) [0..<7] =
    [''2024-02-25'', ''2024-02-26'', ''2024-02-27'', ''2024-02-28'', ''2024-02-29'',
     ''2024-03-01'', ''2024-03-02'']"
  by (simp only: isoDate_def calendarDate_add calendarDate_19778
        iterate_7[of isoString nextDate "(2024, 1, 25)"] nextDate_leap_week isoString_leap_week)

lemma isoDate_19782: "isoDate 19782 = ''2024-02-29''"
proof -
  have "YearFromTime 19782 = 2024" by (simp add: YearFromTime_def DayFromYear_def)
  then have "calendarDate 19782 = (2024, 1, 29)"
    by (simp add: calendarDate_def MonthFromTime_def DateFromTime_def DayWithinYear_def
        InLeapYear_def DaysInYear_def DayFromYear_def monthTable_def dateTable_def)
  then show ?thesis by (simp only: isoDate_def isoString_leap_week)
qed


lemma new_year_week_isoDates:
  "map (\<lambda>i. isoDate (20086 + int i)) [0..<7] =
    [''2024-12-29'', ''2024-12-30'', ''2024-12-31'', ''2025-01-01'', ''2025-01-02'',
     ''2025-01-03'', ''2025-01-04'']"
  by (simp only: isoDate_def calendarDate_add calendarDate_20086
        iterate_7[of isoString nextDate "(2024, 11, 29)"] nextDate_new_year_week
        isoString_new_year_week)

text \<open>In UTC local time is the time value, and every week within the range is whole.\<close>

lemma utcZone_times: "LocalTime utcZone x = x" "UTC utcZone x = x"
  by (simp_all add: LocalTime_def UTC_def utcZone_def)

lemma getCurrentWeekEntries_utcZone:
  assumes "- 100000000 \<le> Day t - WeekDay (Day t)" and "Day t - WeekDay (Day t) + 7 \<le> 100000000"
  shows "getCurrentWeekEntries utcZone (Some (TimeValue t)) es uuid k =
     weekEntries es uuid (map (\<lambda>i. isoDate (Day t - WeekDay (Day t) + int i)) [0..<7]) k"
proof -
  note inst = getCurrentWeekEntries_TimeValue[of utcZone t es uuid k, unfolded utcZone_times(1)]
  show ?thesis
  proof (rule inst)
    fix x
    assume "(Day t - WeekDay (Day t)) * msPerDay \<le> x" "x < (Day t - WeekDay (Day t) + 7) * msPerDay"
    with assms show "\<bar>UTC utcZone x\<bar> \<le> maxTime"
      and "Day (UTC utcZone x) = Day x"
      by (simp_all add: utcZone_times msPerDay_def maxTime_def)
  qed
qed

text \<open>
  Thursday 2024-02-29 at 00:00 and at 15:30, and Sunday 2024-02-25, in UTC: the week from
  Sunday 2024-02-25 holds the leap day and the end of February.
\<close>

lemma sunday_of_leap_week:
  "Day 1709164800000 - WeekDay (Day 1709164800000) = 19778"
  "Day 1709220600000 - WeekDay (Day 1709220600000) = 19778"
  "Day 1708819200000 - WeekDay (Day 1708819200000) = 19778"
  by (simp_all add: Day_def msPerDay_def WeekDay_def)

lemma week_2024_02_25:
  assumes "t = 1709164800000 \<or> t = 1709220600000 \<or> t = 1708819200000"
  shows "getCurrentWeekEntries utcZone (Some (TimeValue t)) es uuid k =
    weekEntries es uuid
      [''2024-02-25'', ''2024-02-26'', ''2024-02-27'', ''2024-02-28'', ''2024-02-29'',
       ''2024-03-01'', ''2024-03-02''] k"
proof -
  from assms have s: "Day t - WeekDay (Day t) = 19778"
    using sunday_of_leap_week by blast
  have "getCurrentWeekEntries utcZone (Some (TimeValue t)) es uuid k =
     weekEntries es uuid (map (\<lambda>i. isoDate (Day t - WeekDay (Day t) + int i)) [0..<7]) k"
    by (rule getCurrentWeekEntries_utcZone) (simp_all add: s)
  then show ?thesis by (simp only: s leap_week_isoDates)
qed

text \<open>The week of Tuesday 2024-12-31 starts on Sunday 2024-12-29 and ends in 2025.\<close>

lemma week_2024_12_31:
  "map date (fst (getCurrentWeekEntries utcZone (Some (TimeValue 1735603200000)) es uuid k)) =
    [''2024-12-29'', ''2024-12-30'', ''2024-12-31'', ''2025-01-01'', ''2025-01-02'',
     ''2025-01-03'', ''2025-01-04'']"
proof -
  have s: "Day 1735603200000 - WeekDay (Day 1735603200000) = 20086"
    by (simp add: Day_def msPerDay_def WeekDay_def)
  have "getCurrentWeekEntries utcZone (Some (TimeValue 1735603200000)) es uuid k =
     weekEntries es uuid
       (map (\<lambda>i. isoDate (Day 1735603200000 - WeekDay (Day 1735603200000) + int i)) [0..<7]) k"
    by (rule getCurrentWeekEntries_utcZone) (simp_all add: s)
  then show ?thesis by (simp only: s new_year_week_isoDates weekEntries_dates)
qed




text \<open>The seven dates of a week from a valid start.\<close>

lemma map_upt_7: "map f [0..<7] = [f 0, f 1, f 2, f 3, f 4, f 5, f (6::nat)]"
  by (simp add: upt_rec numeral_eq_Suc)









lemma isoDate_leap_week:
  "isoDate 19778 = ''2024-02-25''" "isoDate 19779 = ''2024-02-26''"
  "isoDate 19780 = ''2024-02-27''" "isoDate 19781 = ''2024-02-28''"
  "isoDate 19782 = ''2024-02-29''" "isoDate 19783 = ''2024-03-01''"
  "isoDate 19784 = ''2024-03-02''"
  using leap_week_isoDates by (simp_all add: map_upt_7)

lemma leap_week_entry:
  assumes "t = 1709164800000 \<or> t = 1709220600000 \<or> t = 1708819200000"
  shows "map date (fst (getCurrentWeekEntries utcZone (Some (TimeValue t)) es uuid k)) =
      [''2024-02-25'', ''2024-02-26'', ''2024-02-27'', ''2024-02-28'', ''2024-02-29'',
       ''2024-03-01'', ''2024-03-02'']"
    and "length (fst (getCurrentWeekEntries utcZone (Some (TimeValue t)) es uuid k)) = 7"
    and "date (fst (getCurrentWeekEntries utcZone (Some (TimeValue t)) es uuid k) ! 4)
      = ''2024-02-29''"
proof -
  let ?w = "fst (getCurrentWeekEntries utcZone (Some (TimeValue t)) es uuid k)"
  show dates: "map date ?w =
      [''2024-02-25'', ''2024-02-26'', ''2024-02-27'', ''2024-02-28'', ''2024-02-29'',
       ''2024-03-01'', ''2024-03-02'']"
    by (simp only: week_2024_02_25[OF assms] weekEntries_dates)
  show len: "length ?w = 7" using arg_cong[OF dates, of length] by simp
  have "date (?w ! 4) = map date ?w ! 4" using len by simp
  then show "date (?w ! 4) = ''2024-02-29''" by (simp only: dates) simp
qed




text \<open>
  \<^bold>\<open>C8 (as stated).\<close> With two stored entries for 2024-02-29, of production 1 and then 2,
  the window's entry for that day does not carry the production of the last one.
\<close>

theorem weekWindow_duplicate_takes_last_counterexample:
  "date (store_dup ! 0) = ''2024-02-29'' \<and> production (store_dup ! 0) = 1
   \<and> date (store_dup ! 1) = ''2024-02-29'' \<and> production (store_dup ! 1) = 2
   \<and> length store_dup = 2
   \<and> date (fst (getCurrentWeekEntries utcZone (Some (TimeValue 1708819200000)) store_dup sampleUUID 0) ! 4)
       = ''2024-02-29''
   \<and> production (fst (getCurrentWeekEntries utcZone (Some (TimeValue 1708819200000)) store_dup sampleUUID 0) ! 4)
       \<noteq> production (store_dup ! 1)"
proof -
  have t: "(1708819200000::int) = 1709164800000 \<or> (1708819200000::int) = 1709220600000
      \<or> (1708819200000::int) = 1708819200000" by simp
  have d4: "date (fst (getCurrentWeekEntries utcZone (Some (TimeValue 1708819200000)) store_dup sampleUUID 0) ! 4) = ''2024-02-29''"
    by (rule leap_week_entry(3)[OF t])
  have "production (fst (getCurrentWeekEntries utcZone (Some (TimeValue 1708819200000)) store_dup sampleUUID 0) ! 4) = dayProduction store_dup (date (fst (getCurrentWeekEntries utcZone (Some (TimeValue 1708819200000)) store_dup sampleUUID 0) ! 4))"
    by (rule week_production_of_date) (simp add: leap_week_entry(2)[OF t])
  also have "\<dots> = 1"
    unfolding d4 by (simp add: dayProduction_def store_dup_def)
  finally have p4: "production (fst (getCurrentWeekEntries utcZone (Some (TimeValue 1708819200000)) store_dup sampleUUID 0) ! 4) = 1" .
  have "date (store_dup ! 0) = ''2024-02-29''" "production (store_dup ! 0) = 1"
    "date (store_dup ! 1) = ''2024-02-29''" "production (store_dup ! 1) = 2"
    "length store_dup = 2"
    by (simp_all add: store_dup_def)
  with d4 p4 show ?thesis by simp
qed

text \<open>
  \<^bold>\<open>C8 (amended).\<close> When several stored entries have the date of a day of the window, the
  day carries the production of the first of them in the order of the list: an entry \<open>e\<close>
  preceded only by entries of other dates decides its day, whatever follows it. This holds
  in every time zone and for every selected date, at every position of the window.
\<close>

theorem weekWindow_duplicate_takes_first:
  assumes "es = xs @ e # ys" and "\<forall>x\<in>set xs. date x \<noteq> date e"
    and "i < length (fst (getCurrentWeekEntries tza selected es uuid k))"
    and "date (fst (getCurrentWeekEntries tza selected es uuid k) ! i) = date e"
  shows "production (fst (getCurrentWeekEntries tza selected es uuid k) ! i) = production e"
proof -
  let ?w = "fst (getCurrentWeekEntries tza selected es uuid k)"
  have "production (?w ! i) = dayProduction es (date (?w ! i))"
    using assms(3) by (rule week_production_of_date)
  also have "\<dots> = production e"
    unfolding assms(4) using assms(1) refl assms(2) by (rule dayProduction_first)
  finally show ?thesis .
qed

theorem weekWindow_duplicate_takes_first_witness:
  "store_dup = [] @ (store_dup ! 0) # [store_dup ! 1]
   \<and> date (store_dup ! 0) = date (store_dup ! 1)
   \<and> length (fst (getCurrentWeekEntries utcZone (Some (TimeValue 1708819200000)) store_dup sampleUUID 0)) = 7
   \<and> date (fst (getCurrentWeekEntries utcZone (Some (TimeValue 1708819200000)) store_dup sampleUUID 0) ! 4)
       = date (store_dup ! 0)
   \<and> production (fst (getCurrentWeekEntries utcZone (Some (TimeValue 1708819200000)) store_dup sampleUUID 0) ! 4)
       = production (store_dup ! 0)"
proof -
  have t: "(1708819200000::int) = 1709164800000 \<or> (1708819200000::int) = 1709220600000
      \<or> (1708819200000::int) = 1708819200000" by simp
  have h1: "store_dup = [] @ (store_dup ! 0) # [store_dup ! 1]" by (simp add: store_dup_def)
  have h2: "\<forall>x\<in>set []. date x \<noteq> date (store_dup ! 0)" by simp
  have len: "length (fst (getCurrentWeekEntries utcZone (Some (TimeValue 1708819200000)) store_dup sampleUUID 0)) = 7" by (rule leap_week_entry(2)[OF t])
  then have h3: "4 < length (fst (getCurrentWeekEntries utcZone (Some (TimeValue 1708819200000)) store_dup sampleUUID 0))" by simp
  have d: "date (store_dup ! 0) = ''2024-02-29''" "date (store_dup ! 1) = ''2024-02-29''"
    by (simp_all add: store_dup_def)
  have h4: "date (fst (getCurrentWeekEntries utcZone (Some (TimeValue 1708819200000)) store_dup sampleUUID 0) ! 4) = date (store_dup ! 0)"
    unfolding d by (rule leap_week_entry(3)[OF t])
  from weekWindow_duplicate_takes_first[OF h1 h2 h3 h4] h1 h4 d len show ?thesis by simp
qed

subsection \<open>Entry store\<close>

lemma findIndex_none: "\<forall>x\<in>set xs. \<not> P x \<Longrightarrow> findIndex P xs = -1"
  by (induction xs) simp_all

lemma findIndex_first:
  "\<exists>x\<in>set xs. P x \<Longrightarrow>
   \<exists>i<length xs. findIndex P xs = int i \<and> P (xs ! i) \<and> (\<forall>j<i. \<not> P (xs ! j))"
proof (induction xs)
  case Nil
  then show ?case by simp
next
  case (Cons x xs)
  show ?case
  proof (cases "P x")
    case True
    then show ?thesis by (intro exI[of _ 0]) simp
  next
    case False
    with Cons.prems have "\<exists>x\<in>set xs. P x" by simp
    then obtain i where i: "i < length xs" "findIndex P xs = int i" "P (xs ! i)"
      "\<forall>j<i. \<not> P (xs ! j)" using Cons.IH by blast
    have "\<forall>j<Suc i. \<not> P ((x # xs) ! j)"
    proof (intro allI impI)
      fix j assume "j < Suc i"
      then show "\<not> P ((x # xs) ! j)" using False i(4) by (cases j) simp_all
    qed
    moreover have "findIndex P (x # xs) = int (Suc i)" using False i(2) by simp
    ultimately show ?thesis using i(1,3) by (intro exI[of _ "Suc i"]) simp
  qed
qed

lemma onSubmit_existing:
  assumes "\<exists>e\<in>set es. date e = isoDate (Day (LocalTime tza t))"
  shows "\<exists>i<length es. date (es ! i) = isoDate (Day (LocalTime tza t))
           \<and> (\<forall>j<i. date (es ! j) \<noteq> isoDate (Day (LocalTime tza t)))
           \<and> onSubmit tza (Some (TimeValue t)) p es uuid k = (es[i := (es ! i)\<lparr>production := p\<rparr>], k)"
proof -
  from findIndex_first[of es "\<lambda>e. date e = isoDate (Day (LocalTime tza t))", OF assms]
  obtain i where i: "i < length es"
    "findIndex (\<lambda>e. date e = isoDate (Day (LocalTime tza t))) es = int i"
    "date (es ! i) = isoDate (Day (LocalTime tza t))"
    "\<forall>j<i. date (es ! j) \<noteq> isoDate (Day (LocalTime tza t))" by blast
  have "onSubmit tza (Some (TimeValue t)) p es uuid k = (es[i := (es ! i)\<lparr>production := p\<rparr>], k)"
    by (simp add: onSubmit_def i(2))
  with i show ?thesis by blast
qed

lemma onSubmit_new:
  assumes "\<forall>e\<in>set es. date e \<noteq> isoDate (Day (LocalTime tza t))"
  shows "onSubmit tza (Some (TimeValue t)) p es uuid k =
           (es @ [\<lparr>date = isoDate (Day (LocalTime tza t)), production = p,
                   entry_id = uuid k\<rparr>], Suc k)"
proof -
  have "findIndex (\<lambda>e. date e = isoDate (Day (LocalTime tza t))) es = -1"
    using assms by (intro findIndex_none) simp
  then show ?thesis by (simp add: onSubmit_def randomUUID_def)
qed

lemma count_by_dates:
  "length (filter (\<lambda>e. date e = d) es) = length (filter (\<lambda>x. x = d) (map date es))"
  by (induction es) simp_all

lemma map_date_update: "i < length es \<Longrightarrow> map date (es[i := (es ! i)\<lparr>production := p\<rparr>]) = map date es"
  by (simp add: map_update list_update_same_conv)

lemma filter_single:
  assumes "length (filter P xs) \<le> 1" and "i < length xs" and "P (xs ! i)"
  shows "filter P xs = [xs ! i]"
proof -
  from assms(2,3) have mem: "xs ! i \<in> set (filter P xs)" by simp
  show ?thesis
  proof (cases "filter P xs")
    case Nil
    with mem show ?thesis by simp
  next
    case (Cons y ys)
    with assms(1) have "ys = []" by simp
    with Cons mem show ?thesis by simp
  qed
qed

lemma onSubmit_dates:
  "map date (fst (onSubmit tza (Some (TimeValue t)) p es uuid k)) =
     (if isoDate (Day (LocalTime tza t)) \<in> set (map date es) then map date es
      else map date es @ [isoDate (Day (LocalTime tza t))])"
proof (cases "\<exists>e\<in>set es. date e = isoDate (Day (LocalTime tza t))")
  case True
  from onSubmit_existing[OF True, of p uuid k] obtain i where
    "i < length es" "onSubmit tza (Some (TimeValue t)) p es uuid k = (es[i := (es ! i)\<lparr>production := p\<rparr>], k)"
    by blast
  moreover from True have "isoDate (Day (LocalTime tza t)) \<in> set (map date es)" by force
  ultimately show ?thesis by (simp add: map_date_update)
next
  case False
  then have "\<forall>e\<in>set es. date e \<noteq> isoDate (Day (LocalTime tza t))" by simp
  from onSubmit_new[OF this, of p uuid k] False show ?thesis by auto
qed

lemma onSubmit_keeps_distinct_dates:
  "distinct (map date es) \<Longrightarrow> distinct (map date (fst (onSubmit tza sel p es uuid k)))"
proof (cases sel)
  case None
  assume "distinct (map date es)"
  with None show ?thesis by (simp add: onSubmit_def)
next
  case (Some d)
  assume dist: "distinct (map date es)"
  show ?thesis
  proof (cases d)
    case (TimeValue t)
    with Some dist show ?thesis by (simp only: onSubmit_dates) auto
  next
    case InvalidDate
    with Some dist show ?thesis by (simp add: onSubmit_def)
  qed
qed

lemma confirmDelete_keeps_distinct_dates:
  "distinct (map date es) \<Longrightarrow> distinct (map date (confirmDelete t es))"
  by (cases t) (simp_all add: confirmDelete_def distinct_map_filter)

lemma onSubmit_one_entry:
  assumes "length (filter (\<lambda>e. date e = isoDate (Day (LocalTime tza t))) es) \<le> 1"
  shows "\<exists>i e. i < length (fst (onSubmit tza (Some (TimeValue t)) p es uuid k))
           \<and> fst (onSubmit tza (Some (TimeValue t)) p es uuid k) ! i = e
           \<and> filter (\<lambda>e. date e = isoDate (Day (LocalTime tza t)))
                 (fst (onSubmit tza (Some (TimeValue t)) p es uuid k)) = [e]
           \<and> date e = isoDate (Day (LocalTime tza t)) \<and> production e = p
           \<and> (if \<exists>x\<in>set es. date x = isoDate (Day (LocalTime tza t))
               then i < length es \<and> date (es ! i) = isoDate (Day (LocalTime tza t))
                    \<and> entry_id e = entry_id (es ! i)
               else entry_id e = uuid k)"
proof (cases "\<exists>e\<in>set es. date e = isoDate (Day (LocalTime tza t))")
  case True
  from onSubmit_existing[OF True, of p uuid k] obtain i where i: "i < length es"
    "date (es ! i) = isoDate (Day (LocalTime tza t))"
    "onSubmit tza (Some (TimeValue t)) p es uuid k = (es[i := (es ! i)\<lparr>production := p\<rparr>], k)"
    by blast
  let ?r = "es[i := (es ! i)\<lparr>production := p\<rparr>]"
  have "length (filter (\<lambda>e. date e = isoDate (Day (LocalTime tza t))) ?r) \<le> 1"
    using assms i(1) by (simp only: count_by_dates map_date_update)
  moreover have "i < length ?r" "date (?r ! i) = isoDate (Day (LocalTime tza t))" using i by simp_all
  ultimately have "filter (\<lambda>e. date e = isoDate (Day (LocalTime tza t))) ?r = [?r ! i]"
    by (rule filter_single)
  with True i show ?thesis by (intro exI[of _ i] exI[of _ "?r ! i"]) simp
next
  case False
  then have none: "\<forall>e\<in>set es. date e \<noteq> isoDate (Day (LocalTime tza t))" by simp
  then have "filter (\<lambda>e. date e = isoDate (Day (LocalTime tza t))) es = []"
    by (simp add: filter_empty_conv)
  with False onSubmit_new[OF none, of p uuid k] show ?thesis
    by (intro exI[of _ "length es"]
        exI[of _ "\<lparr>date = isoDate (Day (LocalTime tza t)), production = p, entry_id = uuid k\<rparr>"])
       simp
qed


lemma production_update_fields:
  "e\<lparr>production := p\<rparr> = \<lparr>date = date e, production = p, entry_id = entry_id e\<rparr>"
  by (cases e) simp

lemma undoDelete_keeps_distinct_dates:
  "distinct (map date prev) \<Longrightarrow> date e \<notin> set (map date prev) \<Longrightarrow>
   distinct (map date (undoDelete e prev))"
  by (simp add: undoDelete_def)

text \<open>The selected date of the examples: 2024-02-29 at 00:00 in UTC.\<close>

lemma isoDate_2024_02_29: "isoDate (Day (LocalTime utcZone 1709164800000)) = ''2024-02-29''"
proof -
  have "Day (LocalTime utcZone 1709164800000) = 19782"
    by (simp add: utcZone_times Day_def msPerDay_def)
  then show ?thesis by (simp only: isoDate_leap_week)
qed

lemma sampleUUID_values:
  "sampleUUID 0 = ''uuid-0''" "sampleUUID (Suc 0) = ''uuid-1''"
  by (simp_all add: sampleUUID_def digit_def)

text \<open>
  \<^bold>\<open>C7 (as stated).\<close> The store that the Undo action leaves in the run of C6 holds two
  entries dated 2024-02-29. Submitting 7 and then 9 for that day updates the first of them
  twice: two entries dated 2024-02-29 remain, not exactly one.
\<close>

theorem upsert_replaces_or_creates_counterexample:
  "undoDelete \<lparr>date = ''2024-02-29'', production = 5, entry_id = sampleUUID 0\<rparr>
      (fst (onSubmit utcZone (Some (TimeValue 1709164800000)) 3 [] sampleUUID 1)) = store_undone
   \<and> onSubmit utcZone (Some (TimeValue 1709164800000)) 7 store_undone sampleUUID 2
       = ([\<lparr>date = ''2024-02-29'', production = 7, entry_id = sampleUUID 1\<rparr>,
           \<lparr>date = ''2024-02-29'', production = 5, entry_id = sampleUUID 0\<rparr>], 2)
   \<and> onSubmit utcZone (Some (TimeValue 1709164800000)) 9
        [\<lparr>date = ''2024-02-29'', production = 7, entry_id = sampleUUID 1\<rparr>,
         \<lparr>date = ''2024-02-29'', production = 5, entry_id = sampleUUID 0\<rparr>] sampleUUID 2
       = ([\<lparr>date = ''2024-02-29'', production = 9, entry_id = sampleUUID 1\<rparr>,
           \<lparr>date = ''2024-02-29'', production = 5, entry_id = sampleUUID 0\<rparr>], 2)
   \<and> map date [\<lparr>date = ''2024-02-29'', production = 9, entry_id = sampleUUID 1\<rparr>,
                \<lparr>date = ''2024-02-29'', production = 5, entry_id = sampleUUID 0\<rparr>]
       = [''2024-02-29'', ''2024-02-29'']"
  by (simp add: onSubmit_def isoDate_2024_02_29 randomUUID_def undoDelete_def store_undone_def)

text \<open>
  \<^bold>\<open>C7 (amended).\<close> Submitting production \<open>p1\<close> for the selected day, whose formatted date is
  \<open>d\<close>: when the store has an entry dated \<open>d\<close>, the first such entry gets production \<open>p1\<close> and
  keeps its date and identifier, every other position of the list is unchanged and no
  identifier is drawn; when it has none, an entry with date \<open>d\<close>, production \<open>p1\<close> and the
  identifier drawn from \<^verbatim>\<open>crypto.randomUUID()\<close> is appended. On a store with at most one entry
  dated \<open>d\<close>, submitting \<open>p1\<close> and then \<open>p2\<close> leaves exactly one entry dated \<open>d\<close>, with
  production \<open>p2\<close> and the identifier it had after the first submission. The identifier of an
  appended entry is not compared with the stored ones: it differs from each of them when
  every stored identifier is an earlier draw and the new draw differs from the earlier draws.
\<close>

theorem upsert_replaces_or_creates:
  fixes tza :: time_zone and t :: int and es :: "SolarEntry list" and uuid :: "nat \<Rightarrow> string"
    and k :: nat and p1 p2 :: real
  defines "d \<equiv> isoDate (Day (LocalTime tza t))"
    and "r1 \<equiv> onSubmit tza (Some (TimeValue t)) p1 es uuid k"
  defines "r2 \<equiv> onSubmit tza (Some (TimeValue t)) p2 (fst r1) uuid (snd r1)"
  shows "(if \<exists>e\<in>set es. date e = d
          then \<exists>i<length es. date (es ! i) = d \<and> (\<forall>j<i. date (es ! j) \<noteq> d)
                 \<and> r1 = (es[i := \<lparr>date = date (es ! i), production = p1,
                                    entry_id = entry_id (es ! i)\<rparr>], k)
          else r1 = (es @ [\<lparr>date = d, production = p1, entry_id = uuid k\<rparr>], Suc k))
       \<and> (length (filter (\<lambda>e. date e = d) es) \<le> 1 \<longrightarrow>
            (\<exists>e1 e2. filter (\<lambda>e. date e = d) (fst r1) = [e1] \<and> production e1 = p1
                  \<and> filter (\<lambda>e. date e = d) (fst r2) = [e2] \<and> production e2 = p2
                  \<and> date e2 = d \<and> entry_id e2 = entry_id e1))
       \<and> ((\<forall>e\<in>set es. date e \<noteq> d) \<and> (\<forall>e\<in>set es. \<exists>j<k. entry_id e = uuid j)
             \<and> (\<forall>j<k. uuid j \<noteq> uuid k) \<longrightarrow>
            length (fst r1) = Suc (length es)
            \<and> (\<forall>i<length es. fst r1 ! i = es ! i
                  \<and> entry_id (fst r1 ! i) \<noteq> entry_id (fst r1 ! length es)))"
proof (intro conjI impI)
  show "if \<exists>e\<in>set es. date e = d
          then \<exists>i<length es. date (es ! i) = d \<and> (\<forall>j<i. date (es ! j) \<noteq> d)
                 \<and> r1 = (es[i := \<lparr>date = date (es ! i), production = p1,
                                    entry_id = entry_id (es ! i)\<rparr>], k)
          else r1 = (es @ [\<lparr>date = d, production = p1, entry_id = uuid k\<rparr>], Suc k)"
  proof (cases "\<exists>e\<in>set es. date e = d")
    case True
    then have "\<exists>e\<in>set es. date e = isoDate (Day (LocalTime tza t))" by (simp add: d_def)
    from onSubmit_existing[OF this, of p1 uuid k] True show ?thesis
      unfolding r1_def d_def production_update_fields by simp
  next
    case False
    then have "\<forall>e\<in>set es. date e \<noteq> isoDate (Day (LocalTime tza t))" by (simp add: d_def)
    from onSubmit_new[OF this, of p1 uuid k] False show ?thesis
      unfolding r1_def d_def by simp
  qed
next
  assume "length (filter (\<lambda>e. date e = d) es) \<le> 1"
  then have one: "length (filter (\<lambda>e. date e = isoDate (Day (LocalTime tza t))) es) \<le> 1"
    by (simp add: d_def)
  from onSubmit_one_entry[OF one, of p1 uuid k] obtain e1 where
    e1: "filter (\<lambda>e. date e = isoDate (Day (LocalTime tza t))) (fst r1) = [e1]"
      "production e1 = p1"
    unfolding r1_def by blast
  then have one': "length (filter (\<lambda>e. date e = isoDate (Day (LocalTime tza t))) (fst r1)) \<le> 1"
    by simp
  from e1(1) have "e1 \<in> set (filter (\<lambda>e. date e = isoDate (Day (LocalTime tza t))) (fst r1))"
    by simp
  then have ex: "\<exists>x\<in>set (fst r1). date x = isoDate (Day (LocalTime tza t))" by auto
  from onSubmit_one_entry[OF one', of p2 uuid "snd r1"] ex obtain i e2 where
    e2: "filter (\<lambda>e. date e = isoDate (Day (LocalTime tza t))) (fst r2) = [e2]"
      "production e2 = p2" "date e2 = isoDate (Day (LocalTime tza t))" "i < length (fst r1)"
      "date (fst r1 ! i) = isoDate (Day (LocalTime tza t))"
      "entry_id e2 = entry_id (fst r1 ! i)"
    unfolding r2_def by (auto split: if_splits)
  from one' e2(4,5)
  have "filter (\<lambda>e. date e = isoDate (Day (LocalTime tza t))) (fst r1) = [fst r1 ! i]"
    by (rule filter_single)
  with e1(1) have "fst r1 ! i = e1" by simp
  with e1 e2 show "\<exists>e1 e2. filter (\<lambda>e. date e = d) (fst r1) = [e1] \<and> production e1 = p1
                  \<and> filter (\<lambda>e. date e = d) (fst r2) = [e2] \<and> production e2 = p2
                  \<and> date e2 = d \<and> entry_id e2 = entry_id e1"
    unfolding d_def by auto
next
  assume h: "(\<forall>e\<in>set es. date e \<noteq> d) \<and> (\<forall>e\<in>set es. \<exists>j<k. entry_id e = uuid j)
             \<and> (\<forall>j<k. uuid j \<noteq> uuid k)"
  then have "\<forall>e\<in>set es. date e \<noteq> isoDate (Day (LocalTime tza t))" by (simp add: d_def)
  from onSubmit_new[OF this, of p1 uuid k]
  have r: "fst r1 = es @ [\<lparr>date = d, production = p1, entry_id = uuid k\<rparr>]"
    unfolding r1_def d_def by simp
  show "length (fst r1) = Suc (length es)" unfolding r by simp
  show "\<forall>i<length es. fst r1 ! i = es ! i
                  \<and> entry_id (fst r1 ! i) \<noteq> entry_id (fst r1 ! length es)"
  proof (intro allI impI conjI)
    fix i assume i: "i < length es"
    then show "fst r1 ! i = es ! i" unfolding r by (simp add: nth_append)
    from i have "es ! i \<in> set es" by simp
    with h obtain j where "j < k" "entry_id (es ! i) = uuid j" by blast
    with h have "entry_id (es ! i) \<noteq> uuid k" by simp
    with i show "entry_id (fst r1 ! i) \<noteq> entry_id (fst r1 ! length es)"
      unfolding r by (simp add: nth_append)
  qed
qed

theorem upsert_replaces_or_creates_witness:
  "onSubmit utcZone (Some (TimeValue 1709164800000)) 7 store_leap sampleUUID 0
     = ([\<lparr>date = ''2024-02-29'', production = 7, entry_id = ''a''\<rparr>], 0)
   \<and> (\<exists>e2. filter (\<lambda>e. date e = ''2024-02-29'')
              (fst (onSubmit utcZone (Some (TimeValue 1709164800000)) 9
                 (fst (onSubmit utcZone (Some (TimeValue 1709164800000)) 7 store_leap sampleUUID 0)) sampleUUID
                 (snd (onSubmit utcZone (Some (TimeValue 1709164800000)) 7 store_leap sampleUUID 0)))) = [e2]
          \<and> production e2 = 9 \<and> entry_id e2 = ''a'')
   \<and> onSubmit utcZone (Some (TimeValue 1709164800000)) 7 [] sampleUUID 0
     = ([\<lparr>date = ''2024-02-29'', production = 7, entry_id = sampleUUID 0\<rparr>], 1)
   \<and> onSubmit utcZone (Some (TimeValue 1709164800000)) 7 store_feb28 sampleUUID 1
     = (store_feb28 @ [\<lparr>date = ''2024-02-29'', production = 7, entry_id = sampleUUID 1\<rparr>], 2)
   \<and> entry_id (fst (onSubmit utcZone (Some (TimeValue 1709164800000)) 7 store_feb28 sampleUUID 1) ! 0)
       \<noteq> entry_id (fst (onSubmit utcZone (Some (TimeValue 1709164800000)) 7 store_feb28 sampleUUID 1) ! 1)"
proof -
  note existing = upsert_replaces_or_creates[where tza = utcZone and t = 1709164800000
      and es = store_leap and ?p1.0 = 7 and uuid = sampleUUID and k = 0 and ?p2.0 = 9,
      unfolded isoDate_2024_02_29]
  note absent = upsert_replaces_or_creates[where tza = utcZone and t = 1709164800000
      and es = "[]" and ?p1.0 = 7 and uuid = sampleUUID and k = 0 and ?p2.0 = 9,
      unfolded isoDate_2024_02_29]
  note other = upsert_replaces_or_creates[where tza = utcZone and t = 1709164800000
      and es = store_feb28 and ?p1.0 = 7 and uuid = sampleUUID and k = 1 and ?p2.0 = 9,
      unfolded isoDate_2024_02_29]
  have ex: "\<exists>e\<in>set store_leap. date e = ''2024-02-29''" by (simp add: store_leap_def)
  have one: "length (filter (\<lambda>e. date e = ''2024-02-29'') store_leap) \<le> 1"
    by (simp add: store_leap_def)
  from existing ex obtain i where i: "i < length store_leap"
    "onSubmit utcZone (Some (TimeValue 1709164800000)) 7 store_leap sampleUUID 0
       = (store_leap[i := \<lparr>date = date (store_leap ! i), production = 7,
                                entry_id = entry_id (store_leap ! i)\<rparr>], 0)"
    by auto
  from i(1) have "i = 0" by (simp add: store_leap_def)
  with i(2) have a: "onSubmit utcZone (Some (TimeValue 1709164800000)) 7 store_leap sampleUUID 0
     = ([\<lparr>date = ''2024-02-29'', production = 7, entry_id = ''a''\<rparr>], 0)"
    by (simp add: store_leap_def)
  from existing one obtain e1 e2 where e:
    "filter (\<lambda>e. date e = ''2024-02-29'')
       (fst (onSubmit utcZone (Some (TimeValue 1709164800000)) 7 store_leap sampleUUID 0)) = [e1]"
    "filter (\<lambda>e. date e = ''2024-02-29'')
       (fst (onSubmit utcZone (Some (TimeValue 1709164800000)) 9
          (fst (onSubmit utcZone (Some (TimeValue 1709164800000)) 7 store_leap sampleUUID 0)) sampleUUID
          (snd (onSubmit utcZone (Some (TimeValue 1709164800000)) 7 store_leap sampleUUID 0)))) = [e2]"
    "production e2 = 9" "entry_id e2 = entry_id e1"
    by auto
  from e(1) have "entry_id e1 = ''a''" unfolding a by auto
  with e have b: "\<exists>e2. filter (\<lambda>e. date e = ''2024-02-29'')
              (fst (onSubmit utcZone (Some (TimeValue 1709164800000)) 9
                 (fst (onSubmit utcZone (Some (TimeValue 1709164800000)) 7 store_leap sampleUUID 0)) sampleUUID
                 (snd (onSubmit utcZone (Some (TimeValue 1709164800000)) 7 store_leap sampleUUID 0)))) = [e2]
          \<and> production e2 = 9 \<and> entry_id e2 = ''a''" by simp
  from absent have c: "onSubmit utcZone (Some (TimeValue 1709164800000)) 7 [] sampleUUID 0
     = ([\<lparr>date = ''2024-02-29'', production = 7, entry_id = sampleUUID 0\<rparr>], 1)"
    by simp
  have h1: "\<forall>e\<in>set store_feb28. date e \<noteq> ''2024-02-29''"
    and h2: "\<forall>e\<in>set store_feb28. \<exists>j<1. entry_id e = sampleUUID j"
    and h3: "\<forall>j<1. sampleUUID j \<noteq> sampleUUID 1"
    and len: "length store_feb28 = 1"
    by (simp_all add: store_feb28_def sampleUUID_values)
  from h1 have "\<not> (\<exists>e\<in>set store_feb28. date e = ''2024-02-29'')" by simp
  with other have d: "onSubmit utcZone (Some (TimeValue 1709164800000)) 7 store_feb28 sampleUUID 1
     = (store_feb28 @ [\<lparr>date = ''2024-02-29'', production = 7, entry_id = sampleUUID 1\<rparr>], 2)"
    by (simp add: numeral_2_eq_2)
  from other h1 h2 h3 have "\<forall>i<length store_feb28.
      entry_id (fst (onSubmit utcZone (Some (TimeValue 1709164800000)) 7 store_feb28 sampleUUID 1) ! i)
        \<noteq> entry_id (fst (onSubmit utcZone (Some (TimeValue 1709164800000)) 7 store_feb28 sampleUUID 1) ! length store_feb28)"
    by blast
  then have f: "entry_id (fst (onSubmit utcZone (Some (TimeValue 1709164800000)) 7 store_feb28 sampleUUID 1) ! 0)
       \<noteq> entry_id (fst (onSubmit utcZone (Some (TimeValue 1709164800000)) 7 store_feb28 sampleUUID 1) ! 1)"
    by (simp add: len)
  from a b c d f show ?thesis by (intro conjI)
qed

text \<open>
  \<^bold>\<open>C10.\<close> Confirming the deletion of a target entry keeps exactly the entries whose
  identifier differs from the target's, in their order. When one entry has the identifier and
  no other does, the result is the list without that entry; when no entry has it, the result
  is the list itself.
\<close>

theorem remove_by_id:
  fixes t :: SolarEntry and es :: "SolarEntry list"
  defines "r \<equiv> confirmDelete (Some t) es"
  shows "(\<forall>e\<in>set r. entry_id e \<noteq> entry_id t)
       \<and> r = filter (\<lambda>e. entry_id e \<noteq> entry_id t) es
       \<and> (\<forall>xs e ys. es = xs @ e # ys \<and> entry_id e = entry_id t
              \<and> (\<forall>x\<in>set (xs @ ys). entry_id x \<noteq> entry_id t) \<longrightarrow> r = xs @ ys)
       \<and> ((\<forall>e\<in>set es. entry_id e \<noteq> entry_id t) \<longrightarrow> r = es)"
proof (intro conjI allI impI)
  show "r = filter (\<lambda>e. entry_id e \<noteq> entry_id t) es"
    by (simp add: r_def confirmDelete_def)
  then show "\<forall>e\<in>set r. entry_id e \<noteq> entry_id t" by simp
  show "r = es" if "\<forall>e\<in>set es. entry_id e \<noteq> entry_id t"
    using that by (simp add: r_def confirmDelete_def)
next
  fix xs e ys
  assume "es = xs @ e # ys \<and> entry_id e = entry_id t
              \<and> (\<forall>x\<in>set (xs @ ys). entry_id x \<noteq> entry_id t)"
  then show "r = xs @ ys" by (simp add: r_def confirmDelete_def)
qed


theorem remove_by_id_witness:
  "confirmDelete (Some (store_dup ! 0)) store_dup = [store_dup ! 1]
   \<and> confirmDelete (Some \<lparr>date = ''2024-02-29'', production = 1, entry_id = ''zz''\<rparr>) store_dup
       = store_dup"
proof -
  note present = remove_by_id[of "store_dup ! 0" store_dup]
  note absent = remove_by_id[of "\<lparr>date = ''2024-02-29'', production = 1, entry_id = ''zz''\<rparr>"
      store_dup]
  have split: "store_dup = [] @ (store_dup ! 0) # [store_dup ! 1]
      \<and> entry_id (store_dup ! 0) = entry_id (store_dup ! 0)
      \<and> (\<forall>x\<in>set ([] @ [store_dup ! 1]). entry_id x \<noteq> entry_id (store_dup ! 0))"
    by (simp add: store_dup_def)
  from present have "\<And>xs e ys. store_dup = xs @ e # ys \<and> entry_id e = entry_id (store_dup ! 0)
              \<and> (\<forall>x\<in>set (xs @ ys). entry_id x \<noteq> entry_id (store_dup ! 0))
              \<Longrightarrow> confirmDelete (Some (store_dup ! 0)) store_dup = xs @ ys"
    by blast
  from this[OF split] have a: "confirmDelete (Some (store_dup ! 0)) store_dup = [store_dup ! 1]"
    by simp
  have none: "\<forall>e\<in>set store_dup.
      entry_id e \<noteq> entry_id \<lparr>date = ''2024-02-29'', production = 1, entry_id = ''zz''\<rparr>"
    by (simp add: store_dup_def)
  with absent have b:
    "confirmDelete (Some \<lparr>date = ''2024-02-29'', production = 1, entry_id = ''zz''\<rparr>) store_dup
       = store_dup" by blast
  from a b show ?thesis by simp
qed

text \<open>
  \<^bold>\<open>C6.\<close> \<^verbatim>\<open>onSubmit\<close> and \<^verbatim>\<open>confirmDelete\<close> keep the dates of the store distinct
  (lemmas \<open>onSubmit_keeps_distinct_dates\<close>, \<open>confirmDelete_keeps_distinct_dates\<close>); the
  Undo action appends the deleted entry without looking for its date. Run from the empty store:
  submit 5 for 2024-02-29, delete that entry from the week view, submit 3 for the same day, then
  press Undo. The store then holds two entries dated 2024-02-29.
\<close>

theorem undo_after_resubmit_duplicates_date:
  fixes e :: SolarEntry
  defines "e \<equiv> \<lparr>date = ''2024-02-29'', production = 5, entry_id = sampleUUID 0\<rparr>"
  shows "onSubmit utcZone (Some (TimeValue 1709164800000)) 5 [] sampleUUID 0 = ([e], 1)
    \<and> fst (getCurrentWeekEntries utcZone (Some (TimeValue 1709164800000)) [e] sampleUUID 1) ! 4
        = e
    \<and> confirmDelete (Some e) [e] = []
    \<and> onSubmit utcZone (Some (TimeValue 1709164800000)) 3 [] sampleUUID 1
        = ([\<lparr>date = ''2024-02-29'', production = 3, entry_id = sampleUUID 1\<rparr>], 2)
    \<and> undoDelete e [\<lparr>date = ''2024-02-29'', production = 3, entry_id = sampleUUID 1\<rparr>]
        = [\<lparr>date = ''2024-02-29'', production = 3, entry_id = sampleUUID 1\<rparr>, e]
    \<and> \<not> distinct (map date
          [\<lparr>date = ''2024-02-29'', production = 3, entry_id = sampleUUID 1\<rparr>, e])"
proof -
  have none: "\<forall>x\<in>set ([]::SolarEntry list).
      date x \<noteq> isoDate (Day (LocalTime utcZone 1709164800000))" by simp
  have s1: "onSubmit utcZone (Some (TimeValue 1709164800000)) 5 [] sampleUUID 0 = ([e], 1)"
    unfolding onSubmit_new[OF none] by (simp add: e_def isoDate_2024_02_29)
  have s3: "onSubmit utcZone (Some (TimeValue 1709164800000)) 3 [] sampleUUID 1
        = ([\<lparr>date = ''2024-02-29'', production = 3, entry_id = sampleUUID 1\<rparr>], 2)"
    unfolding onSubmit_new[OF none] by (simp add: isoDate_2024_02_29)
  have id_ne: "entry_id e \<noteq> []" by (simp add: e_def sampleUUID_def)
  have "weekEntry [e] sampleUUID ''2024-02-29'' j = (e, j)" for j
    using id_ne by (simp add: weekEntry_def e_def)
  moreover have "weekEntry [e] sampleUUID x j =
      (\<lparr>date = x, production = 0, entry_id = sampleUUID j\<rparr>, Suc j)"
    if "x \<noteq> ''2024-02-29''" for x j
    using that by (auto simp: weekEntry_def e_def randomUUID_def)
  ultimately have "weekEntries [e] sampleUUID
      [''2024-02-25'', ''2024-02-26'', ''2024-02-27'', ''2024-02-28'', ''2024-02-29'',
       ''2024-03-01'', ''2024-03-02''] 1 =
      ([\<lparr>date = ''2024-02-25'', production = 0, entry_id = sampleUUID 1\<rparr>,
        \<lparr>date = ''2024-02-26'', production = 0, entry_id = sampleUUID 2\<rparr>,
        \<lparr>date = ''2024-02-27'', production = 0, entry_id = sampleUUID 3\<rparr>,
        \<lparr>date = ''2024-02-28'', production = 0, entry_id = sampleUUID 4\<rparr>,
        e,
        \<lparr>date = ''2024-03-01'', production = 0, entry_id = sampleUUID 5\<rparr>,
        \<lparr>date = ''2024-03-02'', production = 0, entry_id = sampleUUID 6\<rparr>], 7)"
    by (simp add: numeral_eq_Suc)
  moreover have "getCurrentWeekEntries utcZone (Some (TimeValue 1709164800000)) [e] sampleUUID 1
      = weekEntries [e] sampleUUID
          [''2024-02-25'', ''2024-02-26'', ''2024-02-27'', ''2024-02-28'', ''2024-02-29'',
           ''2024-03-01'', ''2024-03-02''] 1"
    by (rule week_2024_02_25) simp
  ultimately
  have w: "fst (getCurrentWeekEntries utcZone (Some (TimeValue 1709164800000)) [e] sampleUUID 1) ! 4
      = e"
    by simp
  have del: "confirmDelete (Some e) [e] = []" by (simp add: confirmDelete_def)
  have undo: "undoDelete e [\<lparr>date = ''2024-02-29'', production = 3, entry_id = sampleUUID 1\<rparr>]
        = [\<lparr>date = ''2024-02-29'', production = 3, entry_id = sampleUUID 1\<rparr>, e]"
    by (simp add: undoDelete_def)
  have dup: "\<not> distinct (map date
          [\<lparr>date = ''2024-02-29'', production = 3, entry_id = sampleUUID 1\<rparr>, e])"
    by (simp add: e_def)
  from s1 w del s3 undo dup show ?thesis by blast
qed

subsection \<open>Loading\<close>
















subsection \<open>Sums, maxima and first matches\<close>

lemma foldl_plus_sum_list: "foldl (\<lambda>sum x. sum + x) a xs = a + sum_list xs" for a :: real
  by (induction xs arbitrary: a) simp_all

lemma reduce_sum_sum_list: "reduce_sum xs = sum_list xs"
  by (simp add: reduce_sum_def foldl_plus_sum_list)

lemma foldl_max_ge: "a \<le> foldl max a xs" for a :: real
proof (induction xs arbitrary: a)
  case Nil
  show ?case by simp
next
  case (Cons x xs)
  have "a \<le> max a x" by simp
  also have "max a x \<le> foldl max (max a x) xs" by (rule Cons.IH)
  finally show ?case by simp
qed

lemma foldl_max_upper: "x \<in> set xs \<Longrightarrow> x \<le> foldl max a xs" for a :: real
proof (induction xs arbitrary: a)
  case Nil
  then show ?case by simp
next
  case (Cons y ys)
  show ?case
  proof (cases "x = y")
    case True
    have "y \<le> max a y" by simp
    also have "max a y \<le> foldl max (max a y) ys" by (rule foldl_max_ge)
    finally show ?thesis using True by simp
  next
    case False
    with Cons.prems have "x \<in> set ys" by simp
    then show ?thesis using Cons.IH by simp
  qed
qed

lemma foldl_max_mem: "foldl max a xs \<in> insert a (set xs)" for a :: real
proof (induction xs arbitrary: a)
  case Nil
  show ?case by simp
next
  case (Cons y ys)
  have "foldl max (max a y) ys \<in> insert (max a y) (set ys)" by (rule Cons.IH)
  moreover have "max a y = a \<or> max a y = y" by (simp add: max_def)
  ultimately show ?case by auto
qed

lemma Math_max_Nil_iff: "Math_max xs = None \<longleftrightarrow> xs = []"
  by (cases xs) simp_all

lemma Math_max_upper: "Math_max xs = Some m \<Longrightarrow> x \<in> set xs \<Longrightarrow> x \<le> m"
  by (cases xs) (auto simp: foldl_max_ge foldl_max_upper)

lemma Math_max_mem: "Math_max xs = Some m \<Longrightarrow> m \<in> set xs"
  using foldl_max_mem by (cases xs) auto

lemma find_first_index:
  "\<exists>x\<in>set xs. P x \<Longrightarrow>
   \<exists>i<length xs. find P xs = Some (xs ! i) \<and> P (xs ! i) \<and> (\<forall>j<i. \<not> P (xs ! j))"
proof (induction xs)
  case Nil
  then show ?case by simp
next
  case (Cons x xs)
  show ?case
  proof (cases "P x")
    case True
    then show ?thesis by (intro exI[of _ 0]) simp
  next
    case False
    with Cons.prems have "\<exists>x\<in>set xs. P x" by simp
    then obtain i where i: "i < length xs" "find P xs = Some (xs ! i)" "P (xs ! i)"
      "\<forall>j<i. \<not> P (xs ! j)" using Cons.IH by blast
    have "\<forall>j<Suc i. \<not> P ((x # xs) ! j)"
    proof (intro allI impI)
      fix j assume "j < Suc i"
      then show "\<not> P ((x # xs) ! j)" using False i(4) by (cases j) simp_all
    qed
    with i False show ?thesis by (intro exI[of _ "Suc i"]) simp
  qed
qed

lemma sum_list_filter_pos:
  "\<forall>x\<in>set xs. 0 \<le> x \<Longrightarrow> sum_list (filter (\<lambda>v. v > 0) xs) = sum_list xs" for xs :: "real list"
proof (induction xs)
  case Nil
  show ?case by simp
next
  case (Cons x xs)
  then have "x = 0 \<or> x > 0" by auto
  with Cons show ?case by auto
qed

lemma length_filter_production:
  "length (filter (\<lambda>v. v > 0) (map production w)) = length (filter (\<lambda>e. production e > 0) w)"
  by (induction w) simp_all

lemma dailyAverage_unfold:
  "dailyAverage (calculateWeeklyStats w) =
     (if length (filter (\<lambda>e. production e > 0) w) > 0
      then sum_list (map production w) / real (length (filter (\<lambda>e. production e > 0) w))
      else 0)"
  by (simp add: calculateWeeklyStats_def reduce_sum_sum_list Let_def)

lemma chartAverage_unfold:
  "chartAverage w =
     (if length (filter (\<lambda>e. production e > 0) w) > 0
      then sum_list (filter (\<lambda>v. v > 0) (map production w))
             / real (length (filter (\<lambda>e. production e > 0) w))
      else 0)"
  unfolding chartAverage_def Let_def reduce_sum_sum_list length_filter_production ..

lemma weeklyTotal_unfold:
  "weeklyTotal (calculateWeeklyStats w) = sum_list (map production w)"
  by (simp add: calculateWeeklyStats_def reduce_sum_sum_list Let_def)

lemma maxProduction_unfold:
  "maxProduction (calculateWeeklyStats w) = Math_max (map production w)"
  by (simp add: calculateWeeklyStats_def Let_def)

lemma maxProductionDay_unfold:
  "maxProductionDay (calculateWeeklyStats w) =
     find (\<lambda>entry. Some (production entry) = Math_max (map production w)) w"
  by (simp add: calculateWeeklyStats_def Let_def)

lemma maxProductionDay_first:
  assumes "maxProduction (calculateWeeklyStats w) = Some m"
  shows "\<exists>i<length w. maxProductionDay (calculateWeeklyStats w) = Some (w ! i)
           \<and> production (w ! i) = m
           \<and> (\<forall>j<i. production (w ! j) < m) \<and> (\<forall>j<length w. production (w ! j) \<le> m)"
proof -
  from assms have mx: "Math_max (map production w) = Some m"
    by (simp add: maxProduction_unfold)
  then have "m \<in> set (map production w)" by (rule Math_max_mem)
  then have "\<exists>e\<in>set w. production e = m" by auto
  then obtain i where i: "i < length w" "find (\<lambda>e. production e = m) w = Some (w ! i)"
    "production (w ! i) = m" "\<forall>j<i. production (w ! j) \<noteq> m"
    using find_first_index[of w "\<lambda>e. production e = m"] by blast
  have le: "production (w ! j) \<le> m" if "j < length w" for j
  proof -
    from that have "production (w ! j) \<in> set (map production w)" by simp
    with mx show ?thesis by (rule Math_max_upper)
  qed
  have lt: "\<forall>j<i. production (w ! j) < m"
  proof (intro allI impI)
    fix j assume "j < i"
    with i(1) have "j < length w" by simp
    then have "production (w ! j) \<le> m" by (rule le)
    moreover from \<open>j < i\<close> i(4) have "production (w ! j) \<noteq> m" by simp
    ultimately show "production (w ! j) < m" by simp
  qed
  have "maxProductionDay (calculateWeeklyStats w) = find (\<lambda>e. production e = m) w"
    using mx by (simp add: maxProductionDay_unfold)
  with i lt le show ?thesis by auto
qed

lemma bestDay_positive:
  "maxProduction stats = Some m \<Longrightarrow> 0 < m \<Longrightarrow> bestDay stats = maxProductionDay stats"
  by (simp add: bestDay_def)

lemma bestDay_not_positive:
  "maxProduction stats = Some m \<Longrightarrow> m \<le> 0 \<Longrightarrow> bestDay stats = None"
  by (simp add: bestDay_def)

lemma stats_of_productions:
  assumes "map production w = ps"
  shows "weeklyTotal (calculateWeeklyStats w) = sum_list ps"
    and "maxProduction (calculateWeeklyStats w) = Math_max ps"
    and "dailyAverage (calculateWeeklyStats w) =
          (if length (filter (\<lambda>v. v > 0) ps) > 0
           then sum_list ps / real (length (filter (\<lambda>v. v > 0) ps)) else 0)"
  using assms
  by (simp_all only: weeklyTotal_unfold maxProduction_unfold dailyAverage_unfold
        length_filter_production[symmetric])

lemma nth_of_productions:
  assumes "map production w = ps" and "k < length ps"
  shows "production (w ! k) = ps ! k"
proof -
  from assms have "k < length w" by auto
  then have "map production w ! k = production (w ! k)" by (rule nth_map)
  with assms(1) show ?thesis by simp
qed

subsection \<open>Statistics calculator\<close>

text \<open>
  \<^bold>\<open>C2.\<close> The total is the sum of the production of all days of the week; the daily average
  is the total divided by the number of days with a production above zero, and 0 when there is
  no such day. On the week Sun 0, Mon 5, Tue 0, Wed 3, Thu 0, Fri 0, Sat 0 the total is 8, the
  daily average 4, the maximum 5 and the day of the maximum the Monday, which is also the best
  day shown.
\<close>

theorem weeklyStats_total_average:
  "weeklyTotal (calculateWeeklyStats w) = sum_list (map production w)
   \<and> dailyAverage (calculateWeeklyStats w) =
       (if length (filter (\<lambda>e. production e > 0) w) = 0 then 0
        else weeklyTotal (calculateWeeklyStats w)
               / real (length (filter (\<lambda>e. production e > 0) w)))
   \<and> (map production w = [0, 5, 0, 3, 0, 0, 0] \<longrightarrow>
        weeklyTotal (calculateWeeklyStats w) = 8
        \<and> dailyAverage (calculateWeeklyStats w) = 4
        \<and> maxProduction (calculateWeeklyStats w) = Some 5
        \<and> maxProductionDay (calculateWeeklyStats w) = Some (w ! 1)
        \<and> bestDay (calculateWeeklyStats w) = Some (w ! 1)
        \<and> production (w ! 1) = 5)"
proof (intro conjI impI)
  show "weeklyTotal (calculateWeeklyStats w) = sum_list (map production w)"
    by (rule weeklyTotal_unfold)
  show "dailyAverage (calculateWeeklyStats w) =
       (if length (filter (\<lambda>e. production e > 0) w) = 0 then 0
        else weeklyTotal (calculateWeeklyStats w)
               / real (length (filter (\<lambda>e. production e > 0) w)))"
    unfolding dailyAverage_unfold weeklyTotal_unfold by simp
next
  assume ps: "map production w = [0, 5, 0, 3, 0, 0, 0]"
  have len: "length w = 7" using arg_cong[OF ps, of length] by simp
  show t: "weeklyTotal (calculateWeeklyStats w) = 8"
    by (simp add: stats_of_productions(1)[OF ps])
  show a: "dailyAverage (calculateWeeklyStats w) = 4"
    by (simp add: stats_of_productions(3)[OF ps])
  show m: "maxProduction (calculateWeeklyStats w) = Some 5"
    by (simp add: stats_of_productions(2)[OF ps])
  have p: "production (w ! k) = [0, 5, 0, 3, 0, 0, 0] ! k" if "k < 7" for k
    using nth_of_productions[OF ps, of k] that by simp
  from maxProductionDay_first[OF m] obtain i where i: "i < length w"
    "maxProductionDay (calculateWeeklyStats w) = Some (w ! i)" "production (w ! i) = 5"
    by auto
  have "i = 1"
  proof (rule ccontr)
    assume "i \<noteq> 1"
    with i(1) len have "i = 0 \<or> i = 2 \<or> i = 3 \<or> i = 4 \<or> i = 5 \<or> i = 6" by arith
    then show False using p[of i] i(3) by auto
  qed
  with i show d: "maxProductionDay (calculateWeeklyStats w) = Some (w ! 1)" by simp
  from bestDay_positive[OF m] d show "bestDay (calculateWeeklyStats w) = Some (w ! 1)" by simp
  from p[of 1] show "production (w ! 1) = 5" by simp
qed

theorem weeklyStats_total_average_witness:
  "map production week_0_5_0_3 = [0, 5, 0, 3, 0, 0, 0]
   \<and> weeklyTotal (calculateWeeklyStats week_0_5_0_3) = 8
   \<and> dailyAverage (calculateWeeklyStats week_0_5_0_3) = 4
   \<and> maxProductionDay (calculateWeeklyStats week_0_5_0_3)
       = Some \<lparr>date = ''2024-02-26'', production = 5, entry_id = ''id-2024-02-26''\<rparr>"
proof -
  have ps: "map production week_0_5_0_3 = [0, 5, 0, 3, 0, 0, 0]"
    by (simp add: week_0_5_0_3_def sampleWeek_def)
  have "week_0_5_0_3 ! 1 = \<lparr>date = ''2024-02-26'', production = 5, entry_id = ''id-2024-02-26''\<rparr>"
    by (simp add: week_0_5_0_3_def sampleWeek_def)
  with ps weeklyStats_total_average[of week_0_5_0_3] show ?thesis by simp
qed

lemma maxProductionDay_all_zero:
  assumes "w \<noteq> []" and "\<forall>e\<in>set w. production e = 0"
  shows "maxProductionDay (calculateWeeklyStats w) = Some (hd w)"
proof -
  from assms obtain x xs where w: "w = x # xs" and x: "production x = 0"
    and xs: "\<forall>e\<in>set xs. production e = 0" by (cases w) auto
  from xs have ps: "map production xs = replicate (length xs) 0"
    by (induction xs) simp_all
  have "foldl max 0 (replicate k (0::real)) = 0" for k by (induction k) simp_all
  then show ?thesis by (simp add: maxProductionDay_unfold w x ps)
qed

text \<open>
  \<^bold>\<open>C3 (as stated).\<close> On the week of seven days of production 0, the day of the maximum
  that \<^verbatim>\<open>calculateWeeklyStats\<close> returns is not absent: it is the Sunday, a day of
  production 0.
\<close>

theorem weeklyStats_all_zero_best_absent_counterexample:
  "map production week_zero = [0, 0, 0, 0, 0, 0, 0]
   \<and> maxProductionDay (calculateWeeklyStats week_zero)
       = Some \<lparr>date = ''2024-02-25'', production = 0, entry_id = ''id-2024-02-25''\<rparr>"
proof -
  have ps: "map production week_zero = [0, 0, 0, 0, 0, 0, 0]"
    by (simp add: week_zero_def sampleWeek_def)
  have "week_zero \<noteq> []" "\<forall>e\<in>set week_zero. production e = 0"
    by (simp_all add: week_zero_def sampleWeek_def)
  then have "maxProductionDay (calculateWeeklyStats week_zero) = Some (hd week_zero)"
    by (rule maxProductionDay_all_zero)
  moreover have "hd week_zero
      = \<lparr>date = ''2024-02-25'', production = 0, entry_id = ''id-2024-02-25''\<rparr>"
    by (simp add: week_zero_def sampleWeek_def)
  ultimately show ?thesis using ps by simp
qed

text \<open>
  \<^bold>\<open>C3 (amended).\<close> On a week in which every day has production 0, the total is 0, the
  daily average is 0, the maximum is 0 and the day of the maximum is the first day of the week
  (\<^verbatim>\<open>find\<close> returns the first day whose production equals the maximum). The best day is
  absent only where it is shown: the guard \<open>maxProduction > 0\<close> fails, so \<open>bestDay\<close> is
  \<open>None\<close>.
\<close>

theorem weeklyStats_all_zero:
  assumes "w \<noteq> []" and "\<forall>e\<in>set w. production e = 0"
  shows "weeklyTotal (calculateWeeklyStats w) = 0
         \<and> dailyAverage (calculateWeeklyStats w) = 0
         \<and> maxProduction (calculateWeeklyStats w) = Some 0
         \<and> maxProductionDay (calculateWeeklyStats w) = Some (hd w)
         \<and> bestDay (calculateWeeklyStats w) = None"
proof -
  from assms(2) have ps: "map production w = replicate (length w) 0"
    by (induction w) simp_all
  from assms(1) obtain n where n: "length w = Suc n" by (cases w) simp_all
  have "foldl max 0 (replicate k (0::real)) = 0" for k by (induction k) simp_all
  then have mx: "maxProduction (calculateWeeklyStats w) = Some 0"
    by (simp add: maxProduction_unfold ps n)
  have t: "weeklyTotal (calculateWeeklyStats w) = 0"
    by (simp add: weeklyTotal_unfold ps sum_list_replicate)
  from assms(2) have "filter (\<lambda>e. production e > 0) w = []"
    by (simp add: filter_empty_conv)
  then have a: "dailyAverage (calculateWeeklyStats w) = 0"
    by (simp add: dailyAverage_unfold)
  from mx have b: "bestDay (calculateWeeklyStats w) = None"
    by (rule bestDay_not_positive) simp
  from assms have d: "maxProductionDay (calculateWeeklyStats w) = Some (hd w)"
    by (rule maxProductionDay_all_zero)
  from mx t a b d show ?thesis by simp
qed

theorem weeklyStats_all_zero_witness:
  "map production week_zero = [0, 0, 0, 0, 0, 0, 0]
   \<and> weeklyTotal (calculateWeeklyStats week_zero) = 0
   \<and> dailyAverage (calculateWeeklyStats week_zero) = 0
   \<and> maxProduction (calculateWeeklyStats week_zero) = Some 0
   \<and> bestDay (calculateWeeklyStats week_zero) = None"
proof -
  have h1: "week_zero \<noteq> []" by (simp add: week_zero_def sampleWeek_def)
  have h2: "\<forall>e\<in>set week_zero. production e = 0" by (simp add: week_zero_def sampleWeek_def)
  have "map production week_zero = [0, 0, 0, 0, 0, 0, 0]"
    by (simp add: week_zero_def sampleWeek_def)
  with weeklyStats_all_zero[OF h1 h2] show ?thesis by simp
qed

text \<open>
  \<^bold>\<open>C4.\<close> When the maximum production \<open>m\<close> of the week is positive, the day of the maximum,
  which is then the best day shown, is the first day in the order of the week whose production
  is \<open>m\<close>: every earlier day produced strictly less, and no day produced more. On the week with
  Monday 5 and Thursday 5 and 0 on the other days, it is the Monday (index 1), not the Thursday.
\<close>

theorem weeklyStats_best_first_of_ties:
  assumes "maxProduction (calculateWeeklyStats w) = Some m" and "0 < m"
  shows "\<exists>i<length w. maxProductionDay (calculateWeeklyStats w) = Some (w ! i)
           \<and> bestDay (calculateWeeklyStats w) = Some (w ! i)
           \<and> production (w ! i) = m
           \<and> (\<forall>j<i. production (w ! j) < m)
           \<and> (\<forall>j<length w. production (w ! j) \<le> m)
           \<and> (map production w = [0, 5, 0, 0, 5, 0, 0] \<longrightarrow> i = 1)"
proof -
  from maxProductionDay_first[OF assms(1)] obtain i where i: "i < length w"
    "maxProductionDay (calculateWeeklyStats w) = Some (w ! i)" "production (w ! i) = m"
    "\<forall>j<i. production (w ! j) < m" "\<forall>j<length w. production (w ! j) \<le> m"
    by blast
  from bestDay_positive[OF assms] i(2)
  have best: "bestDay (calculateWeeklyStats w) = Some (w ! i)" by simp
  have "i = 1" if ps: "map production w = [0, 5, 0, 0, 5, 0, 0]"
  proof -
    have len: "length w = 7" using arg_cong[OF ps, of length] by simp
    have p: "production (w ! k) = [0, 5, 0, 0, 5, 0, 0] ! k" if "k < 7" for k
      using nth_of_productions[OF ps, of k] that by simp
    from i(5)[rule_format, of 1] len p[of 1] have "5 \<le> m" by simp
    show ?thesis
    proof (rule ccontr)
      assume "i \<noteq> 1"
      with i(1) len have "i = 0 \<or> i = 2 \<or> i = 3 \<or> i = 4 \<or> i = 5 \<or> i = 6" by arith
      then show False
      proof (elim disjE)
        assume "i = 4"
        with i(4) have "production (w ! 1) < m" by simp
        moreover from \<open>i = 4\<close> i(3) p[of 4] have "m = 5" by simp
        ultimately show False using p[of 1] by simp
      qed (use p[of i] i(3) \<open>5 \<le> m\<close> in auto)
    qed
  qed
  with i best show ?thesis by blast
qed

theorem weeklyStats_best_first_of_ties_witness:
  "maxProduction (calculateWeeklyStats week_tie) = Some 5 \<and> (0::real) < 5
   \<and> map production week_tie = [0, 5, 0, 0, 5, 0, 0]
   \<and> maxProductionDay (calculateWeeklyStats week_tie)
       = Some \<lparr>date = ''2024-02-26'', production = 5, entry_id = ''id-2024-02-26''\<rparr>"
proof -
  have ps: "map production week_tie = [0, 5, 0, 0, 5, 0, 0]"
    by (simp add: week_tie_def sampleWeek_def)
  have h1: "maxProduction (calculateWeeklyStats week_tie) = Some 5"
    by (simp add: stats_of_productions(2)[OF ps])
  have h2: "(0::real) < 5" by simp
  have e: "week_tie ! 1 = \<lparr>date = ''2024-02-26'', production = 5, entry_id = ''id-2024-02-26''\<rparr>"
    by (simp add: week_tie_def sampleWeek_def)
  from weeklyStats_best_first_of_ties[OF h1 h2] ps e
  have "maxProductionDay (calculateWeeklyStats week_tie)
       = Some \<lparr>date = ''2024-02-26'', production = 5, entry_id = ''id-2024-02-26''\<rparr>"
    by auto
  with ps h1 show ?thesis by simp
qed

subsection \<open>Chart data mapper\<close>

text \<open>
  \<^bold>\<open>C5 (as stated).\<close> On a week with productions -2 and 5, the chart averages the
  productions above zero and shows 5; the statistics divide the total of all days, 3, by the
  one day above zero and show 3.
\<close>

theorem chartAverage_eq_dailyAverage_counterexample:
  "map production week_neg = [-2, 5, 0, 0, 0, 0, 0]
   \<and> chartAverage week_neg = 5
   \<and> dailyAverage (calculateWeeklyStats week_neg) = 3"
proof -
  have ps: "map production week_neg = [-2, 5, 0, 0, 0, 0, 0]"
    by (simp add: week_neg_def sampleWeek_def)
  have c: "chartAverage week_neg = 5"
    by (simp only: chartAverage_unfold length_filter_production[symmetric] ps) simp
  have d: "dailyAverage (calculateWeeklyStats week_neg) = 3"
    by (simp add: stats_of_productions(3)[OF ps])
  from ps c d show ?thesis by (intro conjI)
qed

text \<open>
  \<^bold>\<open>C5 (amended).\<close> On a week window whose productions are all non-negative, the reference
  average of the chart, computed from the productions above zero alone, is equal to the daily
  average of the statistics, computed from the total of all days.
\<close>

theorem chartAverage_eq_dailyAverage:
  assumes "\<forall>e\<in>set w. 0 \<le> production e"
  shows "chartAverage w = dailyAverage (calculateWeeklyStats w)"
proof -
  from assms have "\<forall>x\<in>set (map production w). 0 \<le> x" by simp
  then have "sum_list (filter (\<lambda>v. v > 0) (map production w)) = sum_list (map production w)"
    by (rule sum_list_filter_pos)
  then show ?thesis
    unfolding chartAverage_unfold dailyAverage_unfold by simp
qed

theorem chartAverage_eq_dailyAverage_witness:
  "map production week_0_5_0_3 = [0, 5, 0, 3, 0, 0, 0]
   \<and> chartAverage week_0_5_0_3 = 4
   \<and> dailyAverage (calculateWeeklyStats week_0_5_0_3) = 4"
proof -
  have h: "\<forall>e\<in>set week_0_5_0_3. 0 \<le> production e"
    by (simp add: week_0_5_0_3_def sampleWeek_def)
  have ps: "map production week_0_5_0_3 = [0, 5, 0, 3, 0, 0, 0]"
    by (simp add: week_0_5_0_3_def sampleWeek_def)
  have "dailyAverage (calculateWeeklyStats week_0_5_0_3) = 4"
    by (simp add: stats_of_productions(3)[OF ps])
  with ps chartAverage_eq_dailyAverage[OF h] show ?thesis by simp
qed

end
